theory Spec2Isabelle
  imports Complex_Main "HOL-Library.AList" "HOL-Library.Multiset"
begin

section \<open>Core types (types.ts)\<close>

text \<open>
  JavaScript numbers that count or measure are modelled as \<open>int\<close> (nothing in the
  source keeps them non-negative by type) or, for counters that only go up from zero,
  as \<open>nat\<close>; they stay in the range where JavaScript numbers are exact integers.
  \<open>Date.now()\<close> is an argument \<open>now :: nat\<close> of every operation that reads the
  clock (one reading for each synchronous step), and \<open>gpuUtilization\<close> is a \<open>real\<close>.
  A JavaScript \<open>Map\<close> is an association list in insertion order with distinct keys:
  \<open>map_of\<close> is \<open>Map.get\<close>, \<open>AList.update\<close> is \<open>Map.set\<close> (an existing key keeps its
  position, a new key goes last), \<open>AList.delete\<close> is \<open>Map.delete\<close>, and
  \<open>AList.map_entry\<close> is a field assignment through the reference \<open>Map.get\<close> returned.
\<close>

datatype WorkerRole = prefill | decode

datatype WorkerStatus = idle | busy | draining | offline

text \<open>The field \<open>id\<close> of the source is \<open>worker_id\<close> here (\<open>id\<close> is the identity of HOL).\<close>

record WorkerInfo =
  worker_id :: string
  endpoint :: string
  role :: WorkerRole
  status :: WorkerStatus
  gpuUtilization :: real
  activeRequests :: int
  maxConcurrency :: int
  lastHealthCheck :: nat
  modelId :: string

record WorkerSeedConfig =
  seed_id :: string
  seed_endpoint :: string
  seed_role :: WorkerRole
  seed_modelId :: string
  seed_maxConcurrency :: "int option"

text \<open>The last constructor stands for any string that is none of the three strategies.\<close>

datatype SchedulingStrategy = round_robin | least_loaded | latency_aware | unknown_strategy string

section \<open>WorkerPool (worker-pool.ts)\<close>

record WorkerPool =
  workers :: "(string \<times> WorkerInfo) list"
  roundRobinCounters :: "WorkerRole \<Rightarrow> nat"

definition new_WorkerPool :: WorkerPool where
  "new_WorkerPool = \<lparr> workers = [], roundRobinCounters = (\<lambda>_. 0) \<rparr>"

definition register :: "WorkerSeedConfig \<Rightarrow> nat \<Rightarrow> WorkerPool \<Rightarrow> WorkerInfo \<times> WorkerPool" where
  "register seed now p =
     (let existing = map_of (workers p) (seed_id seed);
          info = \<lparr> worker_id = seed_id seed,
                   endpoint = seed_endpoint seed,
                   role = seed_role seed,
                   status = (case existing of Some e \<Rightarrow> status e | None \<Rightarrow> idle),
                   gpuUtilization = (case existing of Some e \<Rightarrow> gpuUtilization e | None \<Rightarrow> 0),
                   activeRequests = (case existing of Some e \<Rightarrow> activeRequests e | None \<Rightarrow> 0),
                   maxConcurrency = (case seed_maxConcurrency seed of Some m \<Rightarrow> m | None \<Rightarrow> 32),
                   lastHealthCheck = now,
                   modelId = seed_modelId seed \<rparr>
      in (info, p\<lparr>workers := AList.update (seed_id seed) info (workers p)\<rparr>))"

definition remove_worker :: "string \<Rightarrow> WorkerPool \<Rightarrow> bool \<times> WorkerPool" where
  "remove_worker workerId p =
     (map_of (workers p) workerId \<noteq> None, p\<lparr>workers := AList.delete workerId (workers p)\<rparr>)"

definition get_worker :: "WorkerPool \<Rightarrow> string \<Rightarrow> WorkerInfo option" where
  "get_worker p workerId = map_of (workers p) workerId"

definition list_workers :: "WorkerPool \<Rightarrow> WorkerRole option \<Rightarrow> WorkerInfo list" where
  "list_workers p r =
     (let all = map snd (workers p)
      in case r of Some r' \<Rightarrow> filter (\<lambda>w. role w = r') all | None \<Rightarrow> all)"

definition available :: "WorkerPool \<Rightarrow> WorkerRole \<Rightarrow> WorkerInfo list" where
  "available p r =
     filter (\<lambda>w. (status w = idle \<or> status w = busy) \<and> activeRequests w < maxConcurrency w)
       (list_workers p (Some r))"

definition selectRoundRobin :: "WorkerInfo list \<Rightarrow> WorkerRole \<Rightarrow> WorkerPool \<Rightarrow> WorkerInfo \<times> WorkerPool" where
  "selectRoundRobin candidates r p =
     (let idx = roundRobinCounters p r mod length candidates
      in (candidates ! idx,
          p\<lparr>roundRobinCounters := (roundRobinCounters p)(r := roundRobinCounters p r + 1)\<rparr>))"

fun selectLeastLoaded :: "WorkerInfo list \<Rightarrow> WorkerInfo option" where
  "selectLeastLoaded [] = None"
| "selectLeastLoaded (c # cs) =
     Some (foldl (\<lambda>best cur. if activeRequests cur < activeRequests best then cur else best) c cs)"

fun selectLatencyAware :: "WorkerInfo list \<Rightarrow> WorkerInfo option" where
  "selectLatencyAware [] = None"
| "selectLatencyAware (c # cs) =
     Some (foldl (\<lambda>best cur. if gpuUtilization cur < gpuUtilization best then cur else best) c cs)"

definition select :: "WorkerRole \<Rightarrow> SchedulingStrategy \<Rightarrow> WorkerPool \<Rightarrow> WorkerInfo option \<times> WorkerPool" where
  "select r strategy p =
     (let candidates = available p r
      in if length candidates = 0 then (None, p)
         else (case strategy of
                 round_robin \<Rightarrow> (let (w, p') = selectRoundRobin candidates r p in (Some w, p'))
               | least_loaded \<Rightarrow> (selectLeastLoaded candidates, p)
               | latency_aware \<Rightarrow> (selectLatencyAware candidates, p)
               | unknown_strategy _ \<Rightarrow> (Some (candidates ! 0), p)))"

record MetricsPatch =
  patch_gpuUtilization :: "real option"
  patch_activeRequests :: "int option"
  patch_status :: "WorkerStatus option"

definition updateMetrics :: "string \<Rightarrow> MetricsPatch \<Rightarrow> nat \<Rightarrow> WorkerPool \<Rightarrow> WorkerPool" where
  "updateMetrics workerId metrics now p =
     p\<lparr>workers := AList.map_entry workerId
        (\<lambda>w. let w1 = (case patch_gpuUtilization metrics of
                          Some g \<Rightarrow> w\<lparr>gpuUtilization := g\<rparr> | None \<Rightarrow> w);
                  w2 = (case patch_activeRequests metrics of
                          Some a \<Rightarrow> w1\<lparr>activeRequests := a\<rparr> | None \<Rightarrow> w1);
                  w3 = (case patch_status metrics of
                          Some st \<Rightarrow> w2\<lparr>status := st\<rparr> | None \<Rightarrow> w2)
              in w3\<lparr>lastHealthCheck := now\<rparr>)
        (workers p)\<rparr>"

definition markOffline :: "string \<Rightarrow> WorkerPool \<Rightarrow> WorkerPool" where
  "markOffline workerId p =
     p\<lparr>workers := AList.map_entry workerId (\<lambda>w. w\<lparr>status := offline\<rparr>) (workers p)\<rparr>"

definition incrementActive :: "string \<Rightarrow> WorkerPool \<Rightarrow> WorkerPool" where
  "incrementActive workerId p =
     p\<lparr>workers := AList.map_entry workerId
        (\<lambda>w. let w1 = w\<lparr>activeRequests := activeRequests w + 1\<rparr>
              in if activeRequests w1 \<ge> maxConcurrency w1 then w1\<lparr>status := busy\<rparr> else w1)
        (workers p)\<rparr>"

definition decrementActive :: "string \<Rightarrow> WorkerPool \<Rightarrow> WorkerPool" where
  "decrementActive workerId p =
     p\<lparr>workers := AList.map_entry workerId
        (\<lambda>w. let w1 = w\<lparr>activeRequests := max 0 (activeRequests w - 1)\<rparr>
              in if status w1 = busy \<and> activeRequests w1 < maxConcurrency w1
                 then w1\<lparr>status := idle\<rparr> else w1)
        (workers p)\<rparr>"

definition stale :: "int \<Rightarrow> nat \<Rightarrow> WorkerInfo \<Rightarrow> bool" where
  "stale timeoutMs now w \<longleftrightarrow> status w \<noteq> offline \<and> int now - int (lastHealthCheck w) > timeoutMs"

definition expireStaleWorkers :: "int \<Rightarrow> nat \<Rightarrow> WorkerPool \<Rightarrow> string list \<times> WorkerPool" where
  "expireStaleWorkers timeoutMs now p =
     (map worker_id (filter (stale timeoutMs now) (map snd (workers p))),
      p\<lparr>workers := map (\<lambda>(k, w). (k, if stale timeoutMs now w then w\<lparr>status := offline\<rparr> else w))
                       (workers p)\<rparr>)"

text \<open>A sequence of calls on the pool, in the order the callers make them.\<close>

datatype pool_op =
    Register WorkerSeedConfig nat
  | IncrementActive string
  | DecrementActive string
  | UpdateMetrics string MetricsPatch nat
  | MarkOffline string
  | ExpireStaleWorkers int nat

fun apply_pool_op :: "WorkerPool \<Rightarrow> pool_op \<Rightarrow> WorkerPool" where
  "apply_pool_op p (Register seed now) = snd (register seed now p)"
| "apply_pool_op p (IncrementActive k) = incrementActive k p"
| "apply_pool_op p (DecrementActive k) = decrementActive k p"
| "apply_pool_op p (UpdateMetrics k m now) = updateMetrics k m now p"
| "apply_pool_op p (MarkOffline k) = markOffline k p"
| "apply_pool_op p (ExpireStaleWorkers t now) = snd (expireStaleWorkers t now p)"

definition run_pool_ops :: "WorkerPool \<Rightarrow> pool_op list \<Rightarrow> WorkerPool" where
  "run_pool_ops p ops = foldl apply_pool_op p ops"

text \<open>\<open>n\<close> consecutive calls of \<open>select\<close>, collecting what each returns.\<close>

fun select_n :: "nat \<Rightarrow> WorkerRole \<Rightarrow> SchedulingStrategy \<Rightarrow> WorkerPool \<Rightarrow> WorkerInfo option list \<times> WorkerPool" where
  "select_n 0 r strategy p = ([], p)"
| "select_n (Suc n) r strategy p =
     (let (w, p') = select r strategy p;
          (ws, p'') = select_n n r strategy p'
      in (w # ws, p''))"

section \<open>Values thrown, decimal rendering\<close>

text \<open>
  A rejected promise or a \<open>throw\<close> carries a value: an \<open>Error\<close> instance with its
  message, or anything else, kept as what \<open>String(err)\<close> gives. A call that can throw
  returns \<open>thrown + 'a\<close>, with \<open>Inl\<close> for the exception.
\<close>

datatype thrown = ErrorObj string | NonError string

text \<open>\<open>err instanceof Error ? err.message : String(err)\<close>\<close>

fun message_of :: "thrown \<Rightarrow> string" where
  "message_of (ErrorObj m) = m"
| "message_of (NonError s) = s"

text \<open>What a template literal prints for a non-negative integer.\<close>

definition digit_char :: "nat \<Rightarrow> char" where
  "digit_char d = ''0123456789'' ! d"

fun show_nat :: "nat \<Rightarrow> string" where
  "show_nat n = (if n < 10 then [digit_char n] else show_nat (n div 10) @ [digit_char (n mod 10)])"

declare show_nat.simps [simp del]

section \<open>KVCacheTransferManager (kv-cache.ts)\<close>

record KVCacheTransferRequest =
  job_requestId :: string
  sourceWorkerId :: string
  targetWorkerId :: string
  cacheHandle :: string
  cacheSizeBytes :: int

record KVCacheTransferResult =
  res_requestId :: string
  success :: bool
  transferDurationMs :: int
  targetCacheHandle :: "string option"
  error :: "string option"

text \<open>
  The network is the environment: \<open>fetch\<close> maps the URL and the fields of the JSON body
  sent to a rejection (network failure, or the abort of the deadline timer) or to a
  response. Reading a response body can fail too. A parsed body is \<open>null\<close> or a value
  whose string fields can be read (an absent field reads as \<open>undefined\<close>, which is
  \<open>None\<close>); reading a property of \<open>null\<close> throws a \<open>TypeError\<close>.
\<close>

datatype json = JNull | JFields "(string \<times> string) list"

record Response =
  ok :: bool
  http_status :: nat
  text_body :: "thrown + string"
  json_body :: "thrown + json"

type_synonym fetch_env = "string \<Rightarrow> (string \<times> string option) list \<Rightarrow> thrown + Response"

fun get_field :: "json \<Rightarrow> string \<Rightarrow> thrown + string option" where
  "get_field JNull f =
     Inl (ErrorObj (''Cannot read properties of null (reading '' @ [CHR 0x27] @ f @ [CHR 0x27] @ '')''))"
| "get_field (JFields fs) f = Inr (map_of fs f)"

definition doTransfer :: "fetch_env \<Rightarrow> KVCacheTransferRequest \<Rightarrow> thrown + string option" where
  "doTransfer fetch req =
     (case fetch (sourceWorkerId req @ ''/v1/kv_cache/export'')
                 [(''cache_handle'', Some (cacheHandle req))] of
        Inl e \<Rightarrow> Inl e
      | Inr exportRes \<Rightarrow>
          if \<not> ok exportRes then
            (case text_body exportRes of
               Inl e \<Rightarrow> Inl e
             | Inr t \<Rightarrow> Inl (ErrorObj (''KV cache export failed ('' @
                                        show_nat (http_status exportRes) @ ''): '' @ t)))
          else
            (case json_body exportRes of
               Inl e \<Rightarrow> Inl e
             | Inr exportBody \<Rightarrow>
                 (case get_field exportBody ''transfer_token'' of
                    Inl e \<Rightarrow> Inl e
                  | Inr token \<Rightarrow>
                      (case fetch (targetWorkerId req @ ''/v1/kv_cache/import'')
                                  [(''transfer_token'', token),
                                   (''source_worker'', Some (sourceWorkerId req))] of
                         Inl e \<Rightarrow> Inl e
                       | Inr importRes \<Rightarrow>
                           if \<not> ok importRes then
                             (case text_body importRes of
                                Inl e \<Rightarrow> Inl e
                              | Inr t \<Rightarrow> Inl (ErrorObj (''KV cache import failed ('' @
                                             show_nat (http_status importRes) @ ''): '' @ t)))
                           else
                             (case json_body importRes of
                                Inl e \<Rightarrow> Inl e
                              | Inr importBody \<Rightarrow> get_field importBody ''cache_handle'')))))"

text \<open>
  The \<open>try\<close>/\<open>catch\<close> of \<open>executeTransfer\<close>: what the promise it returns settles
  with, given how \<open>doTransfer\<close> settled. \<open>Inl\<close> would be a rejection.
\<close>

definition executeTransfer_settle ::
  "KVCacheTransferRequest \<Rightarrow> nat \<Rightarrow> nat \<Rightarrow> thrown + string option \<Rightarrow> thrown + KVCacheTransferResult" where
  "executeTransfer_settle req start now outcome =
     (case outcome of
        Inr handle \<Rightarrow>
          Inr \<lparr> res_requestId = job_requestId req, success = True,
                transferDurationMs = int now - int start,
                targetCacheHandle = handle, error = None \<rparr>
      | Inl err \<Rightarrow>
          Inr \<lparr> res_requestId = job_requestId req, success = False,
                transferDurationMs = int now - int start,
                targetCacheHandle = None, error = Some (message_of err) \<rparr>)"

text \<open>
  The manager with the calls of \<open>executeTransfer\<close> that are suspended at their
  \<open>await\<close> (\<open>executing\<close>: the request and its start time, in start order) and the
  promises of \<open>transfer\<close> settled so far (\<open>kv_settled\<close>). Three histories record the
  order of what happened: the jobs pushed on \<open>pending\<close>, the jobs \<open>drainPending\<close>
  took from it, and every job that began executing.
\<close>

record KVCacheTransferManager =
  maxConcurrent :: int
  kv_timeoutMs :: int
  activeTransfers :: int
  pending :: "KVCacheTransferRequest list"
  executing :: "(KVCacheTransferRequest \<times> nat) list"
  kv_settled :: "(KVCacheTransferRequest \<times> (thrown + KVCacheTransferResult)) list"
  enqueued_history :: "KVCacheTransferRequest list"
  drained_history :: "KVCacheTransferRequest list"
  started_history :: "KVCacheTransferRequest list"

definition new_KVCacheTransferManager :: "int \<Rightarrow> int \<Rightarrow> KVCacheTransferManager" where
  "new_KVCacheTransferManager maxC tmo =
     \<lparr> maxConcurrent = maxC, kv_timeoutMs = tmo, activeTransfers = 0, pending = [],
       executing = [], kv_settled = [], enqueued_history = [], drained_history = [],
       started_history = [] \<rparr>"

text \<open>\<open>executeTransfer\<close> up to its \<open>await\<close>.\<close>

definition executeTransfer_begin :: "KVCacheTransferRequest \<Rightarrow> nat \<Rightarrow> KVCacheTransferManager \<Rightarrow> KVCacheTransferManager" where
  "executeTransfer_begin req now m =
     m\<lparr>activeTransfers := activeTransfers m + 1,
       executing := executing m @ [(req, now)],
       started_history := started_history m @ [req]\<rparr>"

definition transfer :: "KVCacheTransferRequest \<Rightarrow> nat \<Rightarrow> KVCacheTransferManager \<Rightarrow> KVCacheTransferManager" where
  "transfer req now m =
     (if activeTransfers m < maxConcurrent m then executeTransfer_begin req now m
      else m\<lparr>pending := pending m @ [req],
             enqueued_history := enqueued_history m @ [req]\<rparr>)"

function drainPending :: "nat \<Rightarrow> KVCacheTransferManager \<Rightarrow> KVCacheTransferManager" where
  "drainPending now m =
     (case pending m of
        [] \<Rightarrow> m
      | next # rest \<Rightarrow>
          if activeTransfers m < maxConcurrent m
          then drainPending now
                 (executeTransfer_begin next now
                    (m\<lparr>pending := rest, drained_history := drained_history m @ [next]\<rparr>))
          else m)"
  by pat_completeness auto
termination
  by (relation "measure (\<lambda>(now, m). length (pending m))")
     (auto simp: executeTransfer_begin_def)

declare drainPending.simps [simp del]

text \<open>
  \<open>executeTransfer\<close> from its \<open>await\<close> on, for the \<open>i\<close>-th suspended call: the
  result, then the \<open>finally\<close> block. A call that is not there does nothing.
\<close>

definition executeTransfer_end :: "fetch_env \<Rightarrow> nat \<Rightarrow> nat \<Rightarrow> KVCacheTransferManager \<Rightarrow> KVCacheTransferManager" where
  "executeTransfer_end fetch i now m =
     (if i < length (executing m) then
        (let (req, start) = executing m ! i;
             outcome = executeTransfer_settle req start now (doTransfer fetch req);
             m1 = m\<lparr>executing := take i (executing m) @ drop (Suc i) (executing m),
                    kv_settled := kv_settled m @ [(req, outcome)]\<rparr>;
             m2 = m1\<lparr>activeTransfers := activeTransfers m1 - 1\<rparr>
         in drainPending now m2)
      else m)"

datatype kv_event =
    Transfer KVCacheTransferRequest nat
  | DoTransferSettles fetch_env nat nat

fun kv_step :: "KVCacheTransferManager \<Rightarrow> kv_event \<Rightarrow> KVCacheTransferManager" where
  "kv_step m (Transfer req now) = transfer req now m"
| "kv_step m (DoTransferSettles fetch i now) = executeTransfer_end fetch i now m"

definition kv_run :: "KVCacheTransferManager \<Rightarrow> kv_event list \<Rightarrow> KVCacheTransferManager" where
  "kv_run m evs = foldl kv_step m evs"

section \<open>HealthMonitor (health.ts)\<close>

datatype SchedulerEvent =
    request_queued string nat
  | prefill_started string string nat
  | prefill_completed string string int nat
  | transfer_started string string string nat
  | transfer_completed string int nat
  | decode_started string string nat
  | decode_completed string string int nat
  | request_completed string int nat
  | request_failed string string nat
  | worker_online string WorkerRole nat
  | worker_offline string nat

definition WINDOW_SIZE :: nat where
  "WINDOW_SIZE = 200"

text \<open>\<open>LatencyWindow.push\<close> on the array of samples.\<close>

definition window_push :: "int \<Rightarrow> int list \<Rightarrow> int list" where
  "window_push v samples =
     (let samples' = samples @ [v]
      in if length samples' > WINDOW_SIZE then tl samples' else samples')"

text \<open>
  The scheduler constructs its monitor without an \<open>onEvent\<close> observer, so \<open>emit\<close>
  only appends to the log. The counters \<open>completed\<close> and \<open>failed\<close> are
  \<open>counters_completed\<close> and \<open>counters_failed\<close>.
\<close>

record HealthMonitor =
  latency_total :: "int list"
  latency_prefill :: "int list"
  latency_decode :: "int list"
  counters_completed :: nat
  counters_failed :: nat
  eventLog :: "SchedulerEvent list"

definition new_HealthMonitor :: HealthMonitor where
  "new_HealthMonitor =
     \<lparr> latency_total = [], latency_prefill = [], latency_decode = [],
       counters_completed = 0, counters_failed = 0, eventLog = [] \<rparr>"

definition recordCompletion :: "int \<Rightarrow> int \<Rightarrow> int \<Rightarrow> HealthMonitor \<Rightarrow> HealthMonitor" where
  "recordCompletion totalMs prefillMs decodeMs h =
     h\<lparr>counters_completed := counters_completed h + 1,
       latency_total := window_push totalMs (latency_total h),
       latency_prefill := window_push prefillMs (latency_prefill h),
       latency_decode := window_push decodeMs (latency_decode h)\<rparr>"

definition recordFailure :: "HealthMonitor \<Rightarrow> HealthMonitor" where
  "recordFailure h = h\<lparr>counters_failed := counters_failed h + 1\<rparr>"

definition emit :: "SchedulerEvent \<Rightarrow> HealthMonitor \<Rightarrow> HealthMonitor" where
  "emit event h =
     (let log' = eventLog h @ [event]
      in h\<lparr>eventLog := (if length log' > 1000 then tl log' else log')\<rparr>)"

section \<open>PDScheduler (scheduler.ts)\<close>

datatype RequestPriority = high | normal | low

datatype RequestPhase = queued | prefilling | transferring | decoding | completed | failed

datatype prompt_input = PromptText string | PromptTokens "int list"

record SamplingParams =
  maxTokens :: "int option"
  temperature :: "real option"
  topP :: "real option"
  topK :: "int option"
  repetitionPenalty :: "real option"
  stop :: "string list option"
  stream :: "bool option"

definition no_SamplingParams :: SamplingParams where
  "no_SamplingParams =
     \<lparr> maxTokens = None, temperature = None, topP = None, topK = None,
       repetitionPenalty = None, stop = None, stream = None \<rparr>"

text \<open>\<open>submit\<close> always stores a number in \<open>timeoutMs\<close>, so the field is an \<open>int\<close>.\<close>

record InferenceRequest =
  requestId :: string
  req_modelId :: string
  prompt :: prompt_input
  samplingParams :: SamplingParams
  priority :: RequestPriority
  phase :: RequestPhase
  createdAt :: nat
  prefillWorkerId :: "string option"
  decodeWorkerId :: "string option"
  kvCacheHandle :: "string option"
  timeoutMs :: int

record InferenceResult =
  result_requestId :: string
  result_text :: string
  tokenCount :: int
  prefillLatencyMs :: int
  decodeLatencyMs :: int
  totalLatencyMs :: int
  result_prefillWorkerId :: string
  result_decodeWorkerId :: string

record PDSchedulerConfig =
  enabled :: bool
  strategy :: SchedulingStrategy
  healthCheckIntervalMs :: int
  workerTimeoutMs :: int
  maxQueueSize :: int
  defaultRequestTimeoutMs :: int
  config_workers :: "WorkerSeedConfig list"
  kvTransfer_maxConcurrent :: int
  kvTransfer_timeoutMs :: int

text \<open>What \<open>client.prefill\<close> and \<open>client.decode\<close> resolve with (vllm-client.ts).\<close>

record PrefillResult =
  prefill_kvCacheHandle :: string
  promptTokens :: int
  prefill_latencyMs :: int

record DecodeResult =
  decode_text :: string
  completionTokens :: int
  decode_latencyMs :: int

record SubmitOptions =
  opt_modelId :: string
  opt_prompt :: prompt_input
  opt_samplingParams :: "SamplingParams option"
  opt_priority :: "RequestPriority option"
  opt_timeoutMs :: "int option"

text \<open>
  A call of \<open>runPipeline\<close> that is suspended at one of its three \<open>await\<close>s, with the
  local variables it holds. \<open>pl_request\<close> is the request object, which the in-flight
  entry of the same id references too: an assignment to one of its fields is applied to
  both.
\<close>

datatype pipeline_stage =
    AwaitPrefill
  | AwaitTransfer PrefillResult WorkerInfo
  | AwaitDecode PrefillResult WorkerInfo KVCacheTransferResult

record pipeline =
  pl_request :: InferenceRequest
  pl_prefillWorkerId :: string
  pl_prefillStart :: nat
  pl_prefillWorker :: "WorkerInfo option"
  pl_stage :: pipeline_stage

text \<open>
  The scheduler object, the module-level \<open>idCounter\<close>, the suspended pipelines, and
  the promises returned by \<open>submit\<close> that have settled (\<open>settled\<close>: the request id with
  \<open>Inl\<close> for a rejection, \<open>Inr\<close> for the result).
\<close>

record PDScheduler =
  config :: PDSchedulerConfig
  pool :: WorkerPool
  kvManager :: KVCacheTransferManager
  health :: HealthMonitor
  idCounter :: nat
  queue :: "InferenceRequest list"
  inflight :: "(string \<times> InferenceRequest) list"
  activePrefills :: int
  activeDecodes :: int
  pipelines :: "pipeline list"
  settled :: "(string \<times> (thrown + InferenceResult)) list"

definition new_PDScheduler :: "PDSchedulerConfig \<Rightarrow> nat \<Rightarrow> PDScheduler" where
  "new_PDScheduler cfg now =
     \<lparr> config = cfg,
       pool = foldl (\<lambda>p seed. snd (register seed now p)) new_WorkerPool (config_workers cfg),
       kvManager = new_KVCacheTransferManager (kvTransfer_maxConcurrent cfg) (kvTransfer_timeoutMs cfg),
       health = new_HealthMonitor,
       idCounter = 0, queue = [], inflight = [], activePrefills = 0, activeDecodes = 0,
       pipelines = [], settled = [] \<rparr>"

definition request_id_string :: "nat \<Rightarrow> nat \<Rightarrow> string" where
  "request_id_string now c = ''req-'' @ show_nat now @ ''-'' @ show_nat c"

definition generateRequestId :: "nat \<Rightarrow> PDScheduler \<Rightarrow> string \<times> PDScheduler" where
  "generateRequestId now s =
     (let s' = s\<lparr>idCounter := idCounter s + 1\<rparr>
      in (request_id_string now (idCounter s'), s'))"

fun PRIORITY_ORDER :: "RequestPriority \<Rightarrow> int" where
  "PRIORITY_ORDER high = 0"
| "PRIORITY_ORDER normal = 1"
| "PRIORITY_ORDER low = 2"

definition QueueFull :: thrown where
  "QueueFull = ErrorObj ''Scheduler queue is full''"

text \<open>
  \<open>submit\<close> returns a promise: \<open>Inl\<close> when it is rejected at once, \<open>Inr\<close> with the
  request id when it is left pending for the pipeline to settle.
\<close>

definition submit :: "SubmitOptions \<Rightarrow> nat \<Rightarrow> PDScheduler \<Rightarrow> (thrown + string) \<times> PDScheduler" where
  "submit opts now s =
     (if int (length (queue s)) \<ge> maxQueueSize (config s) then (Inl QueueFull, s)
      else
        (let (rid, s1) = generateRequestId now s;
             request = \<lparr> requestId = rid,
                         req_modelId = opt_modelId opts,
                         prompt = opt_prompt opts,
                         samplingParams = (case opt_samplingParams opts of
                                             Some sp \<Rightarrow> sp | None \<Rightarrow> no_SamplingParams),
                         priority = (case opt_priority opts of Some pr \<Rightarrow> pr | None \<Rightarrow> normal),
                         phase = queued,
                         createdAt = now,
                         prefillWorkerId = None,
                         decodeWorkerId = None,
                         kvCacheHandle = None,
                         timeoutMs = (case opt_timeoutMs opts of
                                        Some t \<Rightarrow> t
                                      | None \<Rightarrow> defaultRequestTimeoutMs (config s1)) \<rparr>
         in (Inr rid,
             s1\<lparr>queue := queue s1 @ [request],
                inflight := AList.update rid request (inflight s1),
                health := emit (request_queued rid now) (health s1)\<rparr>)))"

text \<open>
  \<open>fail\<close>. The assignment \<open>entry.request.phase = "failed"\<close> is to an object that
  nothing in the state references once the entry is deleted: the caller has taken the
  request out of the queue, or is the pipeline that ends here.
\<close>

definition fail :: "string \<Rightarrow> string \<Rightarrow> nat \<Rightarrow> PDScheduler \<Rightarrow> PDScheduler" where
  "fail rid msg now s =
     (let s1 = s\<lparr>health := recordFailure (health s)\<rparr>;
          s2 = s1\<lparr>health := emit (request_failed rid msg now) (health s1)\<rparr>
      in case map_of (inflight s2) rid of
           None \<Rightarrow> s2
         | Some entry \<Rightarrow>
             s2\<lparr>inflight := AList.delete rid (inflight s2),
                settled := settled s2 @ [(rid, Inl (ErrorObj msg))]\<rparr>)"

definition compareRequests :: "InferenceRequest \<Rightarrow> InferenceRequest \<Rightarrow> int" where
  "compareRequests a b =
     (let pd = PRIORITY_ORDER (priority a) - PRIORITY_ORDER (priority b)
      in if pd \<noteq> 0 then pd else int (createdAt a) - int (createdAt b))"

text \<open>
  \<open>Array.prototype.sort\<close> is stable, and for a comparator that is a total preorder all
  stable sorts return the same array: insertion sort stands for it.
\<close>

fun insort_cmp :: "('a \<Rightarrow> 'a \<Rightarrow> int) \<Rightarrow> 'a \<Rightarrow> 'a list \<Rightarrow> 'a list" where
  "insort_cmp cmp x [] = [x]"
| "insort_cmp cmp x (y # ys) = (if cmp x y \<le> 0 then x # y # ys else y # insort_cmp cmp x ys)"

definition sort_cmp :: "('a \<Rightarrow> 'a \<Rightarrow> int) \<Rightarrow> 'a list \<Rightarrow> 'a list" where
  "sort_cmp cmp xs = foldr (insort_cmp cmp) xs []"

text \<open>\<open>req.timeoutMs && now - req.createdAt > req.timeoutMs\<close>: zero is falsy.\<close>

definition expired :: "nat \<Rightarrow> InferenceRequest \<Rightarrow> bool" where
  "expired now req \<longleftrightarrow> timeoutMs req \<noteq> 0 \<and> int now - int (createdAt req) > timeoutMs req"

text \<open>
  The loop \<open>for (i = length - 1; i >= 0; i--)\<close>; \<open>sweep now n\<close> is the loop with
  \<open>n\<close> iterations left, about to look at index \<open>n - 1\<close>. It is entered with
  \<open>n = queue.length\<close> and removes at the current index only, so the index is in range.
\<close>

fun sweep :: "nat \<Rightarrow> nat \<Rightarrow> PDScheduler \<Rightarrow> PDScheduler" where
  "sweep now 0 s = s"
| "sweep now (Suc i) s =
     (let req = queue s ! i
      in if expired now req
         then sweep now i
                (fail (requestId req) ''Request timed out in queue'' now
                   (s\<lparr>queue := take i (queue s) @ drop (Suc i) (queue s)\<rparr>))
         else sweep now i s)"

text \<open>
  \<open>dispatch\<close> up to the call of \<open>runPipeline\<close>: the request and the prefill worker
  id it would pass, if any.
\<close>

definition dispatch :: "nat \<Rightarrow> PDScheduler \<Rightarrow> (InferenceRequest \<times> string) option \<times> PDScheduler" where
  "dispatch now s =
     (if length (queue s) = 0 then (None, s)
      else
        (let s1 = s\<lparr>queue := sort_cmp compareRequests (queue s)\<rparr>;
             s2 = sweep now (length (queue s1)) s1;
             (w, p') = select prefill (strategy (config s2)) (pool s2);
             s3 = s2\<lparr>pool := p'\<rparr>
         in case w of
              None \<Rightarrow> (None, s3)
            | Some prefillWorker \<Rightarrow>
                (case queue s3 of
                   [] \<Rightarrow> (None, s3)
                 | request # rest \<Rightarrow>
                     (Some (request, worker_id prefillWorker), s3\<lparr>queue := rest\<rparr>))))"

text \<open>An assignment to fields of the request object with id \<open>rid\<close>, as seen through the table.\<close>

definition assign_request :: "string \<Rightarrow> (InferenceRequest \<Rightarrow> InferenceRequest) \<Rightarrow> PDScheduler \<Rightarrow> PDScheduler" where
  "assign_request rid f s = s\<lparr>inflight := AList.map_entry rid f (inflight s)\<rparr>"

text \<open>\<open>runPipeline\<close> up to \<open>await this.client.prefill(...)\<close>.\<close>

definition runPipeline_start :: "InferenceRequest \<Rightarrow> string \<Rightarrow> nat \<Rightarrow> PDScheduler \<Rightarrow> PDScheduler" where
  "runPipeline_start request pwid now s =
     (let rid = requestId request;
          f = (\<lambda>r. r\<lparr>phase := prefilling, prefillWorkerId := Some pwid\<rparr>);
          s1 = assign_request rid f s;
          s2 = s1\<lparr>activePrefills := activePrefills s1 + 1\<rparr>;
          s3 = s2\<lparr>pool := incrementActive pwid (pool s2)\<rparr>;
          s4 = s3\<lparr>health := emit (prefill_started rid pwid now) (health s3)\<rparr>
      in s4\<lparr>pipelines := pipelines s4 @
              [\<lparr> pl_request = f request, pl_prefillWorkerId = pwid, pl_prefillStart = now,
                  pl_prefillWorker = get_worker (pool s4) pwid, pl_stage = AwaitPrefill \<rparr>]\<rparr>)"

text \<open>
  From the settlement of \<open>client.prefill\<close> to \<open>await this.kvManager.transfer(...)\<close>.
  Each continuation returns the pipeline if it suspends again, \<open>None\<close> if it has ended.
\<close>

definition runPipeline_afterPrefill ::
  "thrown + PrefillResult \<Rightarrow> nat \<Rightarrow> pipeline \<Rightarrow> PDScheduler \<Rightarrow> pipeline option \<times> PDScheduler" where
  "runPipeline_afterPrefill outcome now pl s =
     (let rid = requestId (pl_request pl); pwid = pl_prefillWorkerId pl
      in case outcome of
           Inl err \<Rightarrow> (None, fail rid (message_of err) now s)
         | Inr prefillResult \<Rightarrow>
             (let s1 = s\<lparr>pool := decrementActive pwid (pool s)\<rparr>;
                  s2 = s1\<lparr>activePrefills := activePrefills s1 - 1\<rparr>;
                  s3 = s2\<lparr>health := emit (prefill_completed rid pwid (prefill_latencyMs prefillResult) now)
                                       (health s2)\<rparr>;
                  f = (\<lambda>r. r\<lparr>kvCacheHandle := Some (prefill_kvCacheHandle prefillResult),
                              phase := transferring\<rparr>);
                  s4 = assign_request rid f s3;
                  (dw, p') = select decode (strategy (config s4)) (pool s4);
                  s5 = s4\<lparr>pool := p'\<rparr>
              in case dw of
                   None \<Rightarrow> (None, fail rid ''No decode worker available'' now s5)
                 | Some decodeWorker \<Rightarrow>
                     (let g = (\<lambda>r. r\<lparr>decodeWorkerId := Some (worker_id decodeWorker)\<rparr>);
                          s6 = assign_request rid g s5;
                          s7 = s6\<lparr>health := emit (transfer_started rid pwid (worker_id decodeWorker) now)
                                               (health s6)\<rparr>
                      in case pl_prefillWorker pl of
                           None \<Rightarrow>
                             (None, fail rid (''Cannot read properties of undefined (reading '' @ [CHR 0x27] @
                                              ''endpoint'' @ [CHR 0x27] @ '')'') now s7)
                         | Some prefillWorker \<Rightarrow>
                             (Some (pl\<lparr>pl_request := g (f (pl_request pl)),
                                       pl_stage := AwaitTransfer prefillResult decodeWorker\<rparr>),
                              s7\<lparr>kvManager :=
                                    transfer \<lparr> job_requestId = rid,
                                               sourceWorkerId = endpoint prefillWorker,
                                               targetWorkerId = endpoint decodeWorker,
                                               cacheHandle = prefill_kvCacheHandle prefillResult,
                                               cacheSizeBytes = 0 \<rparr>
                                             now (kvManager s7)\<rparr>))))"

text \<open>From the settlement of the transfer to \<open>await this.client.decode(...)\<close>.\<close>

definition runPipeline_afterTransfer ::
  "PrefillResult \<Rightarrow> WorkerInfo \<Rightarrow> thrown + KVCacheTransferResult \<Rightarrow> nat \<Rightarrow> pipeline \<Rightarrow> PDScheduler
     \<Rightarrow> pipeline option \<times> PDScheduler" where
  "runPipeline_afterTransfer prefillResult decodeWorker outcome now pl s =
     (let rid = requestId (pl_request pl)
      in case outcome of
           Inl err \<Rightarrow> (None, fail rid (message_of err) now s)
         | Inr transferResult \<Rightarrow>
             if \<not> success transferResult
             then (None, fail rid (''KV cache transfer failed: '' @
                                    (case error transferResult of
                                       Some e \<Rightarrow> e | None \<Rightarrow> ''undefined'')) now s)
             else
               (let s1 = s\<lparr>health := emit (transfer_completed rid (transferDurationMs transferResult) now)
                                        (health s)\<rparr>;
                    f = (\<lambda>r. r\<lparr>phase := decoding\<rparr>);
                    s2 = assign_request rid f s1;
                    s3 = s2\<lparr>activeDecodes := activeDecodes s2 + 1\<rparr>;
                    s4 = s3\<lparr>pool := incrementActive (worker_id decodeWorker) (pool s3)\<rparr>;
                    s5 = s4\<lparr>health := emit (decode_started rid (worker_id decodeWorker) now)
                                         (health s4)\<rparr>
                in (Some (pl\<lparr>pl_request := f (pl_request pl),
                             pl_stage := AwaitDecode prefillResult decodeWorker transferResult\<rparr>),
                    s5)))"

text \<open>From the settlement of \<open>client.decode\<close> to the end.\<close>

definition runPipeline_afterDecode ::
  "PrefillResult \<Rightarrow> WorkerInfo \<Rightarrow> thrown + DecodeResult \<Rightarrow> nat \<Rightarrow> pipeline \<Rightarrow> PDScheduler
     \<Rightarrow> pipeline option \<times> PDScheduler" where
  "runPipeline_afterDecode prefillResult decodeWorker outcome now pl s =
     (let rid = requestId (pl_request pl)
      in case outcome of
           Inl err \<Rightarrow> (None, fail rid (message_of err) now s)
         | Inr decodeResult \<Rightarrow>
             (let s1 = s\<lparr>pool := decrementActive (worker_id decodeWorker) (pool s)\<rparr>;
                  s2 = s1\<lparr>activeDecodes := activeDecodes s1 - 1\<rparr>;
                  total = int now - int (pl_prefillStart pl);
                  s3 = s2\<lparr>health := emit (decode_completed rid (worker_id decodeWorker)
                                               (decode_latencyMs decodeResult) now) (health s2)\<rparr>;
                  s4 = s3\<lparr>health := emit (request_completed rid total now) (health s3)\<rparr>;
                  s5 = s4\<lparr>health := recordCompletion total (prefill_latencyMs prefillResult)
                                        (decode_latencyMs decodeResult) (health s4)\<rparr>;
                  s6 = assign_request rid (\<lambda>r. r\<lparr>phase := completed\<rparr>) s5
              in case map_of (inflight s6) rid of
                   None \<Rightarrow> (None, s6)
                 | Some entry \<Rightarrow>
                     (None,
                      s6\<lparr>inflight := AList.delete rid (inflight s6),
                         settled := settled s6 @
                           [(rid, Inr \<lparr> result_requestId = rid,
                                        result_text = decode_text decodeResult,
                                        tokenCount = completionTokens decodeResult,
                                        prefillLatencyMs = prefill_latencyMs prefillResult,
                                        decodeLatencyMs = decode_latencyMs decodeResult,
                                        totalLatencyMs = total,
                                        result_prefillWorkerId = pl_prefillWorkerId pl,
                                        result_decodeWorkerId = worker_id decodeWorker \<rparr>)]\<rparr>)))"

text \<open>One tick of the dispatch timer: \<open>dispatch\<close>, and the pipeline it launches.\<close>

definition dispatch_tick :: "nat \<Rightarrow> PDScheduler \<Rightarrow> PDScheduler" where
  "dispatch_tick now s =
     (case dispatch now s of
        (None, s') \<Rightarrow> s'
      | (Some (request, pwid), s') \<Rightarrow> runPipeline_start request pwid now s')"

text \<open>
  What can happen to a scheduler, one event after the other: a caller submits, the
  dispatch timer fires, an awaited call of a pipeline settles (the pipeline is named by
  its request id), somebody calls the pool (the health monitor, or an operator through
  \<open>workerPool\<close>), the health monitor emits, a transfer of the manager settles.
  What an awaited call settles with is part of the event, so every answer of a worker,
  of the network and of the transfer manager is covered.
\<close>

datatype awaited =
    PrefillSettles "thrown + PrefillResult"
  | TransferSettles "thrown + KVCacheTransferResult"
  | DecodeSettles "thrown + DecodeResult"

datatype sched_event =
    Submit SubmitOptions nat
  | DispatchTick nat
  | Resume string awaited nat
  | PoolCall pool_op
  | RemoveWorker string
  | HealthEmit SchedulerEvent
  | KvSettles fetch_env nat nat

fun continue_pipeline :: "awaited \<Rightarrow> nat \<Rightarrow> pipeline \<Rightarrow> PDScheduler \<Rightarrow> (pipeline option \<times> PDScheduler) option" where
  "continue_pipeline (PrefillSettles out) now pl s =
     (case pl_stage pl of
        AwaitPrefill \<Rightarrow> Some (runPipeline_afterPrefill out now pl s)
      | _ \<Rightarrow> None)"
| "continue_pipeline (TransferSettles out) now pl s =
     (case pl_stage pl of
        AwaitTransfer pr dw \<Rightarrow> Some (runPipeline_afterTransfer pr dw out now pl s)
      | _ \<Rightarrow> None)"
| "continue_pipeline (DecodeSettles out) now pl s =
     (case pl_stage pl of
        AwaitDecode pr dw tr \<Rightarrow> Some (runPipeline_afterDecode pr dw out now pl s)
      | _ \<Rightarrow> None)"

text \<open>
  The pipeline of request \<open>rid\<close> resumes, if there is one and it awaits a call of this
  kind; it leaves the list of suspended pipelines and returns to it if it suspends again.
\<close>

definition resume :: "string \<Rightarrow> awaited \<Rightarrow> nat \<Rightarrow> PDScheduler \<Rightarrow> PDScheduler" where
  "resume rid a now s =
     (case find (\<lambda>pl. requestId (pl_request pl) = rid) (pipelines s) of
        None \<Rightarrow> s
      | Some pl \<Rightarrow>
          (case continue_pipeline a now pl (s\<lparr>pipelines := remove1 pl (pipelines s)\<rparr>) of
             None \<Rightarrow> s
           | Some (None, s') \<Rightarrow> s'
           | Some (Some pl', s') \<Rightarrow> s'\<lparr>pipelines := pipelines s' @ [pl']\<rparr>))"

fun sched_step :: "PDScheduler \<Rightarrow> sched_event \<Rightarrow> PDScheduler" where
  "sched_step s (Submit opts now) = snd (submit opts now s)"
| "sched_step s (DispatchTick now) = dispatch_tick now s"
| "sched_step s (Resume rid a now) = resume rid a now s"
| "sched_step s (PoolCall c) = s\<lparr>pool := apply_pool_op (pool s) c\<rparr>"
| "sched_step s (RemoveWorker k) = s\<lparr>pool := snd (remove_worker k (pool s))\<rparr>"
| "sched_step s (HealthEmit e) = s\<lparr>health := emit e (health s)\<rparr>"
| "sched_step s (KvSettles fetch i now) = s\<lparr>kvManager := executeTransfer_end fetch i now (kvManager s)\<rparr>"

definition sched_run :: "PDScheduler \<Rightarrow> sched_event list \<Rightarrow> PDScheduler" where
  "sched_run s evs = foldl sched_step s evs"

section \<open>Predicates and sample inputs used by the properties\<close>

text \<open>No worker has a negative \<open>activeRequests\<close>.\<close>

definition active_nonneg :: "WorkerPool \<Rightarrow> bool" where
  "active_nonneg p \<longleftrightarrow> list_all (\<lambda>(k, w). 0 \<le> activeRequests w) (workers p)"

text \<open>A call that does not hand \<open>updateMetrics\<close> a negative \<open>activeRequests\<close>.\<close>

fun nonneg_op :: "pool_op \<Rightarrow> bool" where
  "nonneg_op (UpdateMetrics k m now) =
     (case patch_activeRequests m of Some a \<Rightarrow> 0 \<le> a | None \<Rightarrow> True)"
| "nonneg_op _ = True"

definition seed_p1 :: "int option \<Rightarrow> WorkerSeedConfig" where
  "seed_p1 m = \<lparr> seed_id = ''p1'', seed_endpoint = ''http://p1:8000'', seed_role = prefill,
                 seed_modelId = ''m1'', seed_maxConcurrency = m \<rparr>"

definition seed_p2 :: WorkerSeedConfig where
  "seed_p2 = \<lparr> seed_id = ''p2'', seed_endpoint = ''http://p2:8000'', seed_role = prefill,
               seed_modelId = ''m1'', seed_maxConcurrency = None \<rparr>"

text \<open>
  A pool in which \<open>p1\<close> has one active request, a reported utilisation and has been
  marked offline; the entry it holds for \<open>p1\<close>; and a seed that registers \<open>p1\<close> again
  with every seeded field different.
\<close>

definition pool_p1_offline :: WorkerPool where
  "pool_p1_offline =
     run_pool_ops new_WorkerPool
       [Register (seed_p1 None) 0, Register seed_p2 0, IncrementActive ''p1'',
        UpdateMetrics ''p1'' \<lparr> patch_gpuUtilization = Some (4 / 5), patch_activeRequests = None,
                               patch_status = None \<rparr> 3,
        MarkOffline ''p1'']"

definition worker_p1_offline :: WorkerInfo where
  "worker_p1_offline =
     \<lparr> worker_id = ''p1'', endpoint = ''http://p1:8000'', role = prefill, status = offline,
       gpuUtilization = 4 / 5, activeRequests = 1, maxConcurrency = 32, lastHealthCheck = 3,
       modelId = ''m1'' \<rparr>"

definition seed_p1_moved :: WorkerSeedConfig where
  "seed_p1_moved =
     \<lparr> seed_id = ''p1'', seed_endpoint = ''http://p1b:9000'', seed_role = decode,
       seed_modelId = ''m2'', seed_maxConcurrency = Some 4 \<rparr>"

definition pool_p1_p2 :: WorkerPool where
  "pool_p1_p2 = run_pool_ops new_WorkerPool [Register (seed_p1 None) 0, Register seed_p2 0]"

text \<open>
  The manager's counter is the number of suspended \<open>executeTransfer\<close> calls, it is
  within the limit, and the jobs ever pushed on \<open>pending\<close> are, in order, those already
  taken from it followed by those still on it.
\<close>

definition kv_inv :: "KVCacheTransferManager \<Rightarrow> bool" where
  "kv_inv m \<longleftrightarrow>
     activeTransfers m = int (length (executing m)) \<and>
     activeTransfers m \<le> maxConcurrent m \<and>
     enqueued_history m = drained_history m @ pending m"

definition job1 :: KVCacheTransferRequest where
  "job1 = \<lparr> job_requestId = ''r1'', sourceWorkerId = ''http://p1'', targetWorkerId = ''http://d1'',
            cacheHandle = ''h1'', cacheSizeBytes = 0 \<rparr>"

definition job2 :: KVCacheTransferRequest where
  "job2 = \<lparr> job_requestId = ''r2'', sourceWorkerId = ''http://p1'', targetWorkerId = ''http://d1'',
            cacheHandle = ''h2'', cacheSizeBytes = 0 \<rparr>"

definition job3 :: KVCacheTransferRequest where
  "job3 = \<lparr> job_requestId = ''r3'', sourceWorkerId = ''http://p1'', targetWorkerId = ''http://d1'',
            cacheHandle = ''h3'', cacheSizeBytes = 0 \<rparr>"


definition net_ok :: fetch_env where
  "net_ok url body =
     Inr \<lparr> ok = True, http_status = 200, text_body = Inr [],
           json_body = Inr (JFields [(''transfer_token'', ''t''), (''cache_handle'', ''h9'')]) \<rparr>"

text \<open>
  The order of the queue: priority rank first, then creation time. It is what the
  comparator of \<open>dispatch\<close> decides (\<open>compareRequests a b \<le> 0\<close>).
\<close>

definition req_le :: "InferenceRequest \<Rightarrow> InferenceRequest \<Rightarrow> bool" where
  "req_le a b \<longleftrightarrow>
     PRIORITY_ORDER (priority a) < PRIORITY_ORDER (priority b) \<or>
     (PRIORITY_ORDER (priority a) = PRIORITY_ORDER (priority b) \<and> createdAt a \<le> createdAt b)"

text \<open>What the timeout check of a tick leaves in the queue, before the head is taken.\<close>

definition kept :: "nat \<Rightarrow> PDScheduler \<Rightarrow> InferenceRequest list" where
  "kept now s = filter (\<lambda>q. \<not> expired now q) (sort_cmp compareRequests (queue s))"

definition queue_ids :: "PDScheduler \<Rightarrow> string list" where
  "queue_ids s = map requestId (queue s)"

definition pipeline_ids :: "PDScheduler \<Rightarrow> string list" where
  "pipeline_ids s = map (\<lambda>pl. requestId (pl_request pl)) (pipelines s)"

definition inflight_ids :: "PDScheduler \<Rightarrow> string list" where
  "inflight_ids s = map fst (inflight s)"

text \<open>An id that \<open>generateRequestId\<close> made when the counter was at most \<open>c\<close>.\<close>

definition issued :: "nat \<Rightarrow> string \<Rightarrow> bool" where
  "issued c k \<longleftrightarrow> (\<exists>t n. n \<le> c \<and> k = request_id_string t n)"

definition sched_inv :: "PDScheduler \<Rightarrow> bool" where
  "sched_inv s \<longleftrightarrow>
     distinct (queue_ids s @ pipeline_ids s) \<and>
     set (inflight_ids s) = set (queue_ids s) \<union> set (pipeline_ids s) \<and>
     (\<forall>k \<in> set (inflight_ids s). issued (idCounter s) k)"

definition cfg0 :: "int \<Rightarrow> PDSchedulerConfig" where
  "cfg0 maxQ =
     \<lparr> enabled = True, strategy = least_loaded, healthCheckIntervalMs = 60000,
       workerTimeoutMs = 30000, maxQueueSize = maxQ, defaultRequestTimeoutMs = 5000,
       config_workers = [], kvTransfer_maxConcurrent = 2, kvTransfer_timeoutMs = 5000 \<rparr>"

definition opts0 :: "RequestPriority option \<Rightarrow> int option \<Rightarrow> SubmitOptions" where
  "opts0 pr t =
     \<lparr> opt_modelId = ''m'', opt_prompt = PromptText ''hello'', opt_samplingParams = None,
       opt_priority = pr, opt_timeoutMs = t \<rparr>"

text \<open>Three requests as \<open>submit\<close> builds them, and a scheduler holding them.\<close>

definition req0 :: "string \<Rightarrow> RequestPriority \<Rightarrow> nat \<Rightarrow> int \<Rightarrow> InferenceRequest" where
  "req0 rid pr t tmo =
     \<lparr> requestId = rid, req_modelId = ''m'', prompt = PromptText ''hello'',
       samplingParams = no_SamplingParams, priority = pr, phase = queued, createdAt = t,
       prefillWorkerId = None, decodeWorkerId = None, kvCacheHandle = None, timeoutMs = tmo \<rparr>"

definition sched_abc :: "WorkerPool \<Rightarrow> PDScheduler" where
  "sched_abc p =
     (new_PDScheduler (cfg0 10) 0)
       \<lparr> pool := p, idCounter := 3,
         queue := [req0 ''req-0-1'' low 0 5000, req0 ''req-1-2'' normal 1 10,
                   req0 ''req-2-3'' high 2 0],
         inflight := [(''req-0-1'', req0 ''req-0-1'' low 0 5000),
                      (''req-1-2'', req0 ''req-1-2'' normal 1 10),
                      (''req-2-3'', req0 ''req-2-3'' high 2 0)] \<rparr>"

section \<open>WorkerPool: properties\<close>

lemma list_all_update:
  "list_all P al \<Longrightarrow> P (k, v) \<Longrightarrow> list_all P (AList.update k v al)"
  by (induction al) auto

lemma list_all_map_entry:
  "list_all (\<lambda>(k, w). Q w) al \<Longrightarrow> (\<And>w. Q w \<Longrightarrow> Q (f w)) \<Longrightarrow>
   list_all (\<lambda>(k, w). Q w) (AList.map_entry k f al)"
  by (induction al) auto

lemma map_of_list_all:
  "list_all (\<lambda>(k, w). Q w) al \<Longrightarrow> map_of al k = Some w \<Longrightarrow> Q w"
  by (induction al) (auto split: if_splits)

lemma apply_pool_op_nonneg:
  assumes a: "active_nonneg p" and n: "nonneg_op c"
  shows "active_nonneg (apply_pool_op p c)"
proof (cases c)
  case (Register seed now)
  have "0 \<le> activeRequests (fst (register seed now p))"
    using a
    by (auto simp: register_def active_nonneg_def Let_def split: option.splits
             dest: map_of_list_all)
  then show ?thesis
    using a Register by (simp add: active_nonneg_def register_def Let_def list_all_update)
next
  case (IncrementActive k)
  then show ?thesis
    using a by (auto simp: active_nonneg_def incrementActive_def Let_def intro!: list_all_map_entry)
next
  case (DecrementActive k)
  then show ?thesis
    using a by (auto simp: active_nonneg_def decrementActive_def Let_def intro!: list_all_map_entry)
next
  case (UpdateMetrics k m now)
  then show ?thesis
    using a n
    by (auto simp: active_nonneg_def updateMetrics_def Let_def intro!: list_all_map_entry
             split: option.splits)
next
  case (MarkOffline k)
  then show ?thesis
    using a by (auto simp: active_nonneg_def markOffline_def intro!: list_all_map_entry)
next
  case (ExpireStaleWorkers t now)
  then show ?thesis
    using a by (auto simp: active_nonneg_def expireStaleWorkers_def list_all_iff)
qed

lemma run_pool_ops_nonneg:
  "active_nonneg p \<Longrightarrow> list_all nonneg_op ops \<Longrightarrow> active_nonneg (run_pool_ops p ops)"
  unfolding run_pool_ops_def
  by (induction ops arbitrary: p) (auto simp: apply_pool_op_nonneg)

text \<open>
  Claim C4, as the code has it. \<open>incrementActive\<close> adds one whatever
  \<open>maxConcurrency\<close> is, and \<open>updateMetrics\<close> stores the number it is given, so the
  pool keeps no upper bound. What it keeps is the lower bound: after any sequence of
  \<open>register\<close>, \<open>incrementActive\<close>, \<open>decrementActive\<close>, \<open>updateMetrics\<close>,
  \<open>markOffline\<close> and \<open>expireStaleWorkers\<close> in which \<open>updateMetrics\<close> is never handed
  a negative count, every worker has \<open>0 \<le> activeRequests\<close>; \<open>decrementActive\<close> on a
  worker at 0 leaves it at 0; \<open>incrementActive\<close> raises the count by exactly one.
\<close>

theorem C4_active_requests_lower_bound:
  "(active_nonneg p \<and> list_all nonneg_op ops \<longrightarrow> active_nonneg (run_pool_ops p ops)) \<and>
   (map_of (workers p) k = Some w \<and> activeRequests w = 0 \<longrightarrow>
      (\<exists>w'. map_of (workers (decrementActive k p)) k = Some w' \<and> activeRequests w' = 0)) \<and>
   (map_of (workers p) k = Some w \<longrightarrow>
      (\<exists>w'. map_of (workers (incrementActive k p)) k = Some w' \<and>
            activeRequests w' = activeRequests w + 1))"
  by (auto simp: run_pool_ops_nonneg decrementActive_def incrementActive_def
                 AList.map_of_map_entry Let_def)

theorem C4_active_requests_lower_bound_witness:
  "active_nonneg new_WorkerPool \<and>
   list_all nonneg_op [Register (seed_p1 (Some 1)) 0, DecrementActive ''p1'', IncrementActive ''p1''] \<and>
   active_nonneg (run_pool_ops new_WorkerPool
      [Register (seed_p1 (Some 1)) 0, DecrementActive ''p1'', IncrementActive ''p1'']) \<and>
   map_of (workers (snd (register (seed_p1 (Some 1)) 0 new_WorkerPool))) ''p1''
     = Some (fst (register (seed_p1 (Some 1)) 0 new_WorkerPool)) \<and>
   activeRequests (fst (register (seed_p1 (Some 1)) 0 new_WorkerPool)) = 0 \<and>
   map_option activeRequests
     (map_of (workers (decrementActive ''p1'' (snd (register (seed_p1 (Some 1)) 0 new_WorkerPool)))) ''p1'')
     = Some 0 \<and>
   map_option activeRequests
     (map_of (workers (incrementActive ''p1'' (snd (register (seed_p1 (Some 1)) 0 new_WorkerPool)))) ''p1'')
     = Some 1"
proof -
  let ?ops = "[Register (seed_p1 (Some 1)) 0, DecrementActive ''p1'', IncrementActive ''p1'']"
  let ?p = "snd (register (seed_p1 (Some 1)) 0 new_WorkerPool)"
  let ?w = "fst (register (seed_p1 (Some 1)) 0 new_WorkerPool)"
  have h1: "active_nonneg new_WorkerPool \<and> list_all nonneg_op ?ops"
    by (simp add: active_nonneg_def new_WorkerPool_def)
  have h2: "map_of (workers ?p) ''p1'' = Some ?w \<and> activeRequests ?w = 0"
    by (simp add: register_def new_WorkerPool_def seed_p1_def Let_def)
  have a: "active_nonneg (run_pool_ops new_WorkerPool ?ops)"
    using C4_active_requests_lower_bound [of new_WorkerPool ?ops "''p1''" ?w] h1 by blast
  have b: "(\<exists>w'. map_of (workers (decrementActive ''p1'' ?p)) ''p1'' = Some w' \<and> activeRequests w' = 0) \<and>
           (\<exists>w'. map_of (workers (incrementActive ''p1'' ?p)) ''p1'' = Some w' \<and>
                 activeRequests w' = activeRequests ?w + 1)"
    using C4_active_requests_lower_bound [of ?p ?ops "''p1''" ?w] h2 by blast
  show ?thesis using h1 h2 a b by auto
qed

text \<open>
  Claim C4 as stated fails: a worker registered with \<open>maxConcurrency = 1\<close> and
  incremented twice has \<open>activeRequests = 2\<close>.
\<close>

theorem C4_counterexample:
  "map_option activeRequests
     (map_of (workers (run_pool_ops new_WorkerPool
        [Register (seed_p1 (Some 1)) 0, IncrementActive ''p1'', IncrementActive ''p1''])) ''p1'')
     = Some 2 \<and>
   map_option maxConcurrency
     (map_of (workers (run_pool_ops new_WorkerPool
        [Register (seed_p1 (Some 1)) 0, IncrementActive ''p1'', IncrementActive ''p1''])) ''p1'')
     = Some 1"
  by (simp add: run_pool_ops_def register_def incrementActive_def new_WorkerPool_def
                seed_p1_def Let_def)

lemma select_rr_nonempty:
  "available p r \<noteq> [] \<Longrightarrow> select r round_robin p =
     (Some (available p r ! (roundRobinCounters p r mod length (available p r))),
      p\<lparr>roundRobinCounters := (roundRobinCounters p)(r := roundRobinCounters p r + 1)\<rparr>)"
  by (simp add: select_def selectRoundRobin_def Let_def)

lemma available_counters [simp]:
  "available (p\<lparr>roundRobinCounters := f\<rparr>) r = available p r"
  by (simp add: available_def list_workers_def)

lemma select_n_rr:
  "available p r \<noteq> [] \<Longrightarrow>
   select_n n r round_robin p =
     (map (\<lambda>i. Some (available p r ! ((roundRobinCounters p r + i) mod length (available p r))))
          [0..<n],
      p\<lparr>roundRobinCounters := (roundRobinCounters p)(r := roundRobinCounters p r + n)\<rparr>)"
proof (induction n arbitrary: p)
  case 0
  then show ?case by simp
next
  case (Suc n)
  let ?p' = "p\<lparr>roundRobinCounters := (roundRobinCounters p)(r := roundRobinCounters p r + 1)\<rparr>"
  have av: "available ?p' r = available p r" by simp
  have ih: "select_n n r round_robin ?p' =
     (map (\<lambda>i. Some (available p r ! ((roundRobinCounters p r + 1 + i) mod length (available p r))))
          [0..<n],
      p\<lparr>roundRobinCounters := (roundRobinCounters p)(r := roundRobinCounters p r + Suc n)\<rparr>)"
    using Suc.IH [of ?p'] Suc.prems by (simp add: av fun_upd_def cong: if_cong)
  have shift:
    "map (\<lambda>i. Some (available p r ! ((roundRobinCounters p r + i) mod length (available p r))))
         [0..<Suc n]
      = Some (available p r ! (roundRobinCounters p r mod length (available p r))) #
        map (\<lambda>i. Some (available p r ! ((roundRobinCounters p r + 1 + i) mod length (available p r))))
            [0..<n]"
    by (simp add: upt_conv_Cons map_Suc_upt [symmetric] del: upt_Suc)
  show ?case
    by (simp only: select_n.simps select_rr_nonempty [OF Suc.prems] ih shift Let_def prod.case)
qed

lemma rotate_as_map:
  "xs \<noteq> [] \<Longrightarrow>
   map (\<lambda>i. xs ! ((c + i) mod length xs)) [0..<length xs] = rotate (c mod length xs) xs"
  by (rule nth_equalityI) (simp_all add: nth_rotate mod_add_left_eq)

lemma round_robin_sweep:
  assumes "available p r \<noteq> []"
  shows "fst (select_n (length (available p r)) r round_robin p) =
           map Some (rotate (roundRobinCounters p r mod length (available p r)) (available p r))"
proof -
  have "map (\<lambda>i. Some (available p r ! ((roundRobinCounters p r + i) mod length (available p r))))
            [0..<length (available p r)]
        = map Some (map (\<lambda>i. available p r ! ((roundRobinCounters p r + i) mod length (available p r)))
                        [0..<length (available p r)])"
    by simp
  then show ?thesis
    using assms by (simp only: select_n_rr [OF assms] fst_conv rotate_as_map [OF assms])
qed

lemma mset_rotate_eq: "mset (rotate n xs) = mset xs"
proof -
  have "mset (drop (n mod length xs) xs @ take (n mod length xs) xs) =
        mset (take (n mod length xs) xs @ drop (n mod length xs) xs)"
    by (simp only: mset_append add.commute)
  then show ?thesis by (simp add: rotate_drop_take)
qed

text \<open>
  Claim C5, as the code has it. \<open>select\<close> returns before it reaches the counter when
  there is no candidate, so a call that returns no worker leaves the counter (and the
  pool) unchanged. A call with candidates returns the one at index
  \<open>counter mod count\<close> and adds one to the counter of that role. With a fixed
  non-empty list of \<open>N\<close> candidates, \<open>N\<close> consecutive calls return the candidates
  rotated by \<open>counter mod N\<close>: each of them exactly once.
\<close>

theorem C5_round_robin:
  "(available p r = [] \<longrightarrow> select r round_robin p = (None, p)) \<and>
   (available p r \<noteq> [] \<longrightarrow>
      select r round_robin p =
        (Some (available p r ! (roundRobinCounters p r mod length (available p r))),
         p\<lparr>roundRobinCounters := (roundRobinCounters p)(r := roundRobinCounters p r + 1)\<rparr>) \<and>
      fst (select_n (length (available p r)) r round_robin p) =
        map Some (rotate (roundRobinCounters p r mod length (available p r)) (available p r)) \<and>
      mset (fst (select_n (length (available p r)) r round_robin p)) =
        mset (map Some (available p r)))"
  by (simp add: select_rr_nonempty round_robin_sweep mset_rotate_eq) (simp add: select_def)

theorem C5_round_robin_witness:
  "available new_WorkerPool decode = [] \<and>
   select decode round_robin new_WorkerPool = (None, new_WorkerPool) \<and>
   available pool_p1_p2 prefill \<noteq> [] \<and>
   map worker_id (available pool_p1_p2 prefill) = [''p1'', ''p2''] \<and>
   map (map_option worker_id)
       (fst (select_n (length (available pool_p1_p2 prefill)) prefill round_robin pool_p1_p2)) =
     [Some ''p1'', Some ''p2'']"
proof -
  have e: "available new_WorkerPool decode = []"
    by (simp add: available_def list_workers_def new_WorkerPool_def)
  have s0: "select decode round_robin new_WorkerPool = (None, new_WorkerPool)"
    using C5_round_robin [of new_WorkerPool decode] e by simp
  have av: "map worker_id (available pool_p1_p2 prefill) = [''p1'', ''p2'']"
    by (simp add: pool_p1_p2_def run_pool_ops_def register_def seed_p1_def seed_p2_def
                  new_WorkerPool_def available_def list_workers_def Let_def)
  have ne: "available pool_p1_p2 prefill \<noteq> []"
    using av by auto
  have c0: "roundRobinCounters pool_p1_p2 prefill = 0"
    by (simp add: pool_p1_p2_def run_pool_ops_def register_def new_WorkerPool_def Let_def)
  have "fst (select_n (length (available pool_p1_p2 prefill)) prefill round_robin pool_p1_p2) =
          map Some (rotate 0 (available pool_p1_p2 prefill))"
    using C5_round_robin [of pool_p1_p2 prefill] ne c0 by simp
  then have "map (map_option worker_id)
       (fst (select_n (length (available pool_p1_p2 prefill)) prefill round_robin pool_p1_p2)) =
     map Some (map worker_id (available pool_p1_p2 prefill))"
    by simp
  then show ?thesis using e s0 ne av by simp
qed

text \<open>
  Claim C5 as stated fails: on a pool with no available prefill worker, \<open>select\<close>
  returns no worker and the round-robin counter has not advanced.
\<close>

theorem C5_counterexample:
  "fst (select prefill round_robin new_WorkerPool) = None \<and>
   roundRobinCounters (snd (select prefill round_robin new_WorkerPool)) prefill =
     roundRobinCounters new_WorkerPool prefill"
  by (simp add: select_def available_def list_workers_def new_WorkerPool_def)

lemma map_fst_update_present:
  "map_of al k = Some v \<Longrightarrow> map fst (AList.update k v' al) = map fst al"
  by (induction al) (auto split: if_splits)

text \<open>
  Claim C9, as the code has it. \<open>register\<close> on an id that is present keeps the
  stored \<open>status\<close>, \<open>gpuUtilization\<close> and \<open>activeRequests\<close>: a worker that is
  offline is still offline after it is registered again. The entry returned is the
  stored one with \<open>endpoint\<close>, \<open>role\<close>, \<open>modelId\<close> and \<open>maxConcurrency\<close> taken from
  the seed (32 when the seed gives no \<open>maxConcurrency\<close>) and \<open>lastHealthCheck\<close> set to
  the time of the call, and nothing else changed; it is what the pool then holds under
  the id, in the same place, and every other worker and the round-robin counters are as
  they were.
\<close>

theorem C9_register_keeps_status:
  "map_of (workers p) (seed_id seed) = Some e \<longrightarrow>
     fst (register seed now p) =
       e\<lparr>worker_id := seed_id seed,
         endpoint := seed_endpoint seed,
         role := seed_role seed,
         maxConcurrency := (case seed_maxConcurrency seed of Some m \<Rightarrow> m | None \<Rightarrow> 32),
         lastHealthCheck := now,
         modelId := seed_modelId seed\<rparr> \<and>
     status (fst (register seed now p)) = status e \<and>
     gpuUtilization (fst (register seed now p)) = gpuUtilization e \<and>
     activeRequests (fst (register seed now p)) = activeRequests e \<and>
     (status e = offline \<longrightarrow> status (fst (register seed now p)) = offline) \<and>
     map_of (workers (snd (register seed now p))) (seed_id seed) = Some (fst (register seed now p)) \<and>
     (\<forall>k. k \<noteq> seed_id seed \<longrightarrow>
        map_of (workers (snd (register seed now p))) k = map_of (workers p) k) \<and>
     map fst (workers (snd (register seed now p))) = map fst (workers p) \<and>
     roundRobinCounters (snd (register seed now p)) = roundRobinCounters p"
proof
  assume h: "map_of (workers p) (seed_id seed) = Some e"
  have info: "fst (register seed now p) =
       e\<lparr>worker_id := seed_id seed,
         endpoint := seed_endpoint seed,
         role := seed_role seed,
         maxConcurrency := (case seed_maxConcurrency seed of Some m \<Rightarrow> m | None \<Rightarrow> 32),
         lastHealthCheck := now,
         modelId := seed_modelId seed\<rparr>"
    using h by (cases e) (simp add: register_def Let_def)
  have kept: "status (fst (register seed now p)) = status e \<and>
              gpuUtilization (fst (register seed now p)) = gpuUtilization e \<and>
              activeRequests (fst (register seed now p)) = activeRequests e"
    by (simp add: info)
  have stored: "map_of (workers (snd (register seed now p))) (seed_id seed)
                  = Some (fst (register seed now p))"
    by (simp add: register_def Let_def AList.update_conv')
  have others: "\<forall>k. k \<noteq> seed_id seed \<longrightarrow>
        map_of (workers (snd (register seed now p))) k = map_of (workers p) k"
    by (simp add: register_def Let_def AList.update_conv')
  have keys: "map fst (workers (snd (register seed now p))) = map fst (workers p)"
    using h by (simp add: register_def Let_def map_fst_update_present)
  have rr: "roundRobinCounters (snd (register seed now p)) = roundRobinCounters p"
    by (simp add: register_def Let_def)
  show "fst (register seed now p) =
       e\<lparr>worker_id := seed_id seed,
         endpoint := seed_endpoint seed,
         role := seed_role seed,
         maxConcurrency := (case seed_maxConcurrency seed of Some m \<Rightarrow> m | None \<Rightarrow> 32),
         lastHealthCheck := now,
         modelId := seed_modelId seed\<rparr> \<and>
     status (fst (register seed now p)) = status e \<and>
     gpuUtilization (fst (register seed now p)) = gpuUtilization e \<and>
     activeRequests (fst (register seed now p)) = activeRequests e \<and>
     (status e = offline \<longrightarrow> status (fst (register seed now p)) = offline) \<and>
     map_of (workers (snd (register seed now p))) (seed_id seed) = Some (fst (register seed now p)) \<and>
     (\<forall>k. k \<noteq> seed_id seed \<longrightarrow>
        map_of (workers (snd (register seed now p))) k = map_of (workers p) k) \<and>
     map fst (workers (snd (register seed now p))) = map fst (workers p) \<and>
     roundRobinCounters (snd (register seed now p)) = roundRobinCounters p"
    using info kept stored others keys rr by simp
qed

theorem C9_register_keeps_status_witness:
  "map_of (workers pool_p1_offline) (seed_id seed_p1_moved) = Some worker_p1_offline \<and>
   status worker_p1_offline = offline \<and>
   activeRequests worker_p1_offline = 1 \<and>
   gpuUtilization worker_p1_offline = 4 / 5 \<and>
   status (fst (register seed_p1_moved 7 pool_p1_offline)) = offline \<and>
   activeRequests (fst (register seed_p1_moved 7 pool_p1_offline)) = 1 \<and>
   gpuUtilization (fst (register seed_p1_moved 7 pool_p1_offline)) = 4 / 5 \<and>
   endpoint (fst (register seed_p1_moved 7 pool_p1_offline)) = ''http://p1b:9000'' \<and>
   role (fst (register seed_p1_moved 7 pool_p1_offline)) = decode \<and>
   maxConcurrency (fst (register seed_p1_moved 7 pool_p1_offline)) = 4 \<and>
   modelId (fst (register seed_p1_moved 7 pool_p1_offline)) = ''m2'' \<and>
   lastHealthCheck (fst (register seed_p1_moved 7 pool_p1_offline)) = 7 \<and>
   map_option status (map_of (workers (snd (register seed_p1_moved 7 pool_p1_offline))) ''p1'')
     = Some offline \<and>
   map fst (workers (snd (register seed_p1_moved 7 pool_p1_offline))) = [''p1'', ''p2'']"
proof -
  have h: "map_of (workers pool_p1_offline) (seed_id seed_p1_moved) = Some worker_p1_offline"
    by (simp add: pool_p1_offline_def worker_p1_offline_def seed_p1_moved_def run_pool_ops_def
                  register_def incrementActive_def updateMetrics_def markOffline_def
                  new_WorkerPool_def seed_p1_def seed_p2_def Let_def)
  have e: "status worker_p1_offline = offline \<and> activeRequests worker_p1_offline = 1 \<and>
           gpuUtilization worker_p1_offline = 4 / 5"
    by (simp add: worker_p1_offline_def)
  have k: "map fst (workers pool_p1_offline) = [''p1'', ''p2'']"
    by (simp add: pool_p1_offline_def run_pool_ops_def register_def incrementActive_def
                  updateMetrics_def markOffline_def new_WorkerPool_def seed_p1_def seed_p2_def
                  Let_def)
  note w = C9_register_keeps_status [of pool_p1_offline seed_p1_moved worker_p1_offline 7]
  have info: "fst (register seed_p1_moved 7 pool_p1_offline) =
       worker_p1_offline\<lparr>worker_id := seed_id seed_p1_moved,
         endpoint := seed_endpoint seed_p1_moved,
         role := seed_role seed_p1_moved,
         maxConcurrency := (case seed_maxConcurrency seed_p1_moved of Some m \<Rightarrow> m | None \<Rightarrow> 32),
         lastHealthCheck := 7,
         modelId := seed_modelId seed_p1_moved\<rparr>"
    using w h by blast
  have st: "map_of (workers (snd (register seed_p1_moved 7 pool_p1_offline))) (seed_id seed_p1_moved)
              = Some (fst (register seed_p1_moved 7 pool_p1_offline))"
    using w h by blast
  have ks: "map fst (workers (snd (register seed_p1_moved 7 pool_p1_offline)))
              = map fst (workers pool_p1_offline)"
    using w h by blast
  have sid: "seed_id seed_p1_moved = ''p1''" by (simp add: seed_p1_moved_def)
  have vals: "status (fst (register seed_p1_moved 7 pool_p1_offline)) = offline \<and>
   activeRequests (fst (register seed_p1_moved 7 pool_p1_offline)) = 1 \<and>
   gpuUtilization (fst (register seed_p1_moved 7 pool_p1_offline)) = 4 / 5 \<and>
   endpoint (fst (register seed_p1_moved 7 pool_p1_offline)) = ''http://p1b:9000'' \<and>
   role (fst (register seed_p1_moved 7 pool_p1_offline)) = decode \<and>
   maxConcurrency (fst (register seed_p1_moved 7 pool_p1_offline)) = 4 \<and>
   modelId (fst (register seed_p1_moved 7 pool_p1_offline)) = ''m2'' \<and>
   lastHealthCheck (fst (register seed_p1_moved 7 pool_p1_offline)) = 7"
    unfolding info by (simp add: worker_p1_offline_def seed_p1_moved_def)
  have "map_option status (map_of (workers (snd (register seed_p1_moved 7 pool_p1_offline))) ''p1'')
          = Some offline"
    using st sid vals by simp
  then show ?thesis using h e vals ks k by simp
qed

text \<open>
  Claim C9 as stated fails: a worker registered, marked offline and registered again
  with the same id is offline after \<open>register\<close> returns.
\<close>

theorem C9_counterexample:
  "map_option status
     (map_of (workers (snd (register (seed_p1 None) 7
        (markOffline ''p1'' (snd (register (seed_p1 None) 0 new_WorkerPool)))))) ''p1'')
     = Some offline"
  by (simp add: register_def markOffline_def new_WorkerPool_def seed_p1_def Let_def)

section \<open>KVCacheTransferManager: properties\<close>

lemma kv_inv_begin:
  "activeTransfers m = int (length (executing m)) \<Longrightarrow> activeTransfers m < maxConcurrent m \<Longrightarrow>
   enqueued_history m = drained_history m @ pending m \<Longrightarrow>
   kv_inv (executeTransfer_begin req now m)"
  by (simp add: kv_inv_def executeTransfer_begin_def)

lemma kv_inv_transfer: "kv_inv m \<Longrightarrow> kv_inv (transfer req now m)"
  by (auto simp: transfer_def kv_inv_def executeTransfer_begin_def)

lemma kv_inv_drainPending: "kv_inv m \<Longrightarrow> kv_inv (drainPending now m)"
proof (induction now m rule: drainPending.induct)
  case (1 now m)
  show ?case
  proof (cases "pending m")
    case Nil
    then show ?thesis using "1.prems" by (simp add: drainPending.simps)
  next
    case (Cons nxt rest)
    show ?thesis
    proof (cases "activeTransfers m < maxConcurrent m")
      case True
      let ?m' = "m\<lparr>pending := rest, drained_history := drained_history m @ [nxt]\<rparr>"
      have "kv_inv (executeTransfer_begin nxt now ?m')"
        using "1.prems" True Cons by (intro kv_inv_begin) (simp_all add: kv_inv_def)
      then have "kv_inv (drainPending now (executeTransfer_begin nxt now ?m'))"
        using "1.IH" [OF Cons True] by simp
      then show ?thesis using Cons True by (simp add: drainPending.simps [of now m])
    next
      case False
      then show ?thesis using "1.prems" Cons by (simp add: drainPending.simps [of now m])
    qed
  qed
qed

lemma kv_inv_end: "kv_inv m \<Longrightarrow> kv_inv (executeTransfer_end fetch i now m)"
proof (cases "i < length (executing m)")
  case True
  assume a: "kv_inv m"
  obtain req start where rs: "executing m ! i = (req, start)" by (cases "executing m ! i")
  let ?m2 = "m\<lparr>executing := take i (executing m) @ drop (Suc i) (executing m),
                kv_settled := kv_settled m @
                  [(req, executeTransfer_settle req start now (doTransfer fetch req))],
                activeTransfers := activeTransfers m - 1\<rparr>"
  have "kv_inv ?m2" using a True by (auto simp: kv_inv_def)
  then have "kv_inv (drainPending now ?m2)" by (rule kv_inv_drainPending)
  then show ?thesis using True rs by (simp add: executeTransfer_end_def Let_def)
next
  case False
  assume "kv_inv m"
  then show ?thesis using False by (simp add: executeTransfer_end_def)
qed

lemma kv_inv_run: "kv_inv m \<Longrightarrow> kv_inv (kv_run m evs)"
  unfolding kv_run_def
proof (induction evs arbitrary: m)
  case Nil
  then show ?case by simp
next
  case (Cons ev evs)
  have "kv_inv (kv_step m ev)"
    using Cons.prems by (cases ev) (simp_all add: kv_inv_transfer kv_inv_end)
  then show ?case using Cons.IH by simp
qed

lemma drainPending_fixed:
  "maxConcurrent (drainPending now m) = maxConcurrent m \<and>
   kv_settled (drainPending now m) = kv_settled m"
proof (induction now m rule: drainPending.induct)
  case (1 now m)
  show ?case
  proof (cases "pending m")
    case Nil
    then show ?thesis by (simp add: drainPending.simps)
  next
    case (Cons nxt rest)
    show ?thesis
    proof (cases "activeTransfers m < maxConcurrent m")
      case True
      from "1.IH" [OF Cons True] show ?thesis
        using Cons True
        by (simp add: drainPending.simps [of now m] executeTransfer_begin_def)
    next
      case False
      then show ?thesis using Cons by (simp add: drainPending.simps [of now m])
    qed
  qed
qed

lemma kv_step_maxConcurrent: "maxConcurrent (kv_step m ev) = maxConcurrent m"
  by (cases ev)
     (auto simp: transfer_def executeTransfer_begin_def executeTransfer_end_def Let_def
                 drainPending_fixed split: prod.splits)

lemma kv_run_maxConcurrent: "maxConcurrent (kv_run m evs) = maxConcurrent m"
  unfolding kv_run_def
  by (induction evs arbitrary: m) (simp_all add: kv_step_maxConcurrent)

text \<open>
  Claim C6. For a manager created with a limit \<open>maxConcurrent \<ge> 0\<close>, after any sequence
  of calls of \<open>transfer\<close> and settlements of running transfers: the counter \<open>active\<close>
  is the number of transfers executing and is at most \<open>maxConcurrent\<close>, and the jobs
  that were pushed on the pending list are, in insertion order, the jobs that
  \<open>drainPending\<close> has started, in the order it started them, followed by the jobs still
  pending.
\<close>

theorem C6_transfer_limit_and_fifo:
  "0 \<le> maxC \<longrightarrow>
     activeTransfers (kv_run (new_KVCacheTransferManager maxC tmo) evs)
       = int (length (executing (kv_run (new_KVCacheTransferManager maxC tmo) evs))) \<and>
     activeTransfers (kv_run (new_KVCacheTransferManager maxC tmo) evs) \<le> maxC \<and>
     enqueued_history (kv_run (new_KVCacheTransferManager maxC tmo) evs)
       = drained_history (kv_run (new_KVCacheTransferManager maxC tmo) evs) @
         pending (kv_run (new_KVCacheTransferManager maxC tmo) evs)"
proof
  assume "0 \<le> maxC"
  then have "kv_inv (new_KVCacheTransferManager maxC tmo)"
    by (simp add: kv_inv_def new_KVCacheTransferManager_def)
  then have "kv_inv (kv_run (new_KVCacheTransferManager maxC tmo) evs)"
    by (rule kv_inv_run)
  moreover have "maxConcurrent (kv_run (new_KVCacheTransferManager maxC tmo) evs) = maxC"
    by (simp add: kv_run_maxConcurrent new_KVCacheTransferManager_def)
  ultimately show
    "activeTransfers (kv_run (new_KVCacheTransferManager maxC tmo) evs)
       = int (length (executing (kv_run (new_KVCacheTransferManager maxC tmo) evs))) \<and>
     activeTransfers (kv_run (new_KVCacheTransferManager maxC tmo) evs) \<le> maxC \<and>
     enqueued_history (kv_run (new_KVCacheTransferManager maxC tmo) evs)
       = drained_history (kv_run (new_KVCacheTransferManager maxC tmo) evs) @
         pending (kv_run (new_KVCacheTransferManager maxC tmo) evs)"
    by (simp add: kv_inv_def)
qed

theorem C6_transfer_limit_and_fifo_witness:
  "(0::int) \<le> 1 \<and>
   activeTransfers (kv_run (new_KVCacheTransferManager 1 100)
      [Transfer job1 0, Transfer job2 1, Transfer job3 2, DoTransferSettles net_ok 0 5]) = 1 \<and>
   map fst (executing (kv_run (new_KVCacheTransferManager 1 100)
      [Transfer job1 0, Transfer job2 1, Transfer job3 2, DoTransferSettles net_ok 0 5])) = [job2] \<and>
   enqueued_history (kv_run (new_KVCacheTransferManager 1 100)
      [Transfer job1 0, Transfer job2 1, Transfer job3 2, DoTransferSettles net_ok 0 5]) = [job2, job3] \<and>
   drained_history (kv_run (new_KVCacheTransferManager 1 100)
      [Transfer job1 0, Transfer job2 1, Transfer job3 2, DoTransferSettles net_ok 0 5]) = [job2] \<and>
   pending (kv_run (new_KVCacheTransferManager 1 100)
      [Transfer job1 0, Transfer job2 1, Transfer job3 2, DoTransferSettles net_ok 0 5]) = [job3]"
  using C6_transfer_limit_and_fifo
          [of 1 100 "[Transfer job1 0, Transfer job2 1, Transfer job3 2, DoTransferSettles net_ok 0 5]"]
  by (simp add: kv_run_def new_KVCacheTransferManager_def transfer_def executeTransfer_begin_def
                executeTransfer_end_def drainPending.simps Let_def)







section \<open>PDScheduler: properties of submit, dispatch and fail\<close>

lemma compareRequests_le: "compareRequests a b \<le> 0 \<longleftrightarrow> req_le a b"
  by (auto simp: compareRequests_def req_le_def Let_def)

lemma req_le_total: "req_le a b \<or> req_le b a"
  by (auto simp: req_le_def)

lemma req_le_trans: "req_le a b \<Longrightarrow> req_le b c \<Longrightarrow> req_le a c"
  by (auto simp: req_le_def)

lemma req_le_refl: "req_le a a"
  by (simp add: req_le_def)

lemma set_insort_cmp [simp]: "set (insort_cmp cmp x xs) = insert x (set xs)"
  by (induction xs) auto

lemma set_sort_cmp [simp]: "set (sort_cmp cmp xs) = set xs"
  unfolding sort_cmp_def by (induction xs) auto

lemma sort_cmp_Nil [simp]: "sort_cmp cmp [] = []"
  by (simp add: sort_cmp_def)

lemma length_insort_cmp [simp]: "length (insort_cmp cmp x xs) = Suc (length xs)"
  by (induction xs) auto

lemma length_sort_cmp [simp]: "length (sort_cmp cmp xs) = length xs"
  unfolding sort_cmp_def by (induction xs) auto

lemma mset_insort_cmp [simp]: "mset (insort_cmp cmp x xs) = add_mset x (mset xs)"
  by (induction xs) auto

lemma mset_sort_cmp [simp]: "mset (sort_cmp cmp xs) = mset xs"
  unfolding sort_cmp_def by (induction xs) auto

lemma sorted_insort_cmp:
  "sorted_wrt req_le xs \<Longrightarrow> sorted_wrt req_le (insort_cmp compareRequests x xs)"
proof (induction xs)
  case Nil
  then show ?case by simp
next
  case (Cons y ys)
  show ?case
  proof (cases "compareRequests x y \<le> 0")
    case True
    then have xy: "req_le x y" by (simp add: compareRequests_le)
    have "\<forall>z \<in> set ys. req_le x z"
      using Cons.prems xy by (auto intro: req_le_trans)
    then show ?thesis using True xy Cons.prems by simp
  next
    case False
    then have "req_le y x" using req_le_total [of x y] by (simp add: compareRequests_le)
    then show ?thesis using False Cons by auto
  qed
qed

lemma sorted_sort_cmp: "sorted_wrt req_le (sort_cmp compareRequests xs)"
  unfolding sort_cmp_def by (induction xs) (auto intro: sorted_insort_cmp)

lemma fail_fields [simp]:
  "queue (fail rid msg now s) = queue s"
  "pool (fail rid msg now s) = pool s"
  "config (fail rid msg now s) = config s"
  "pipelines (fail rid msg now s) = pipelines s"
  "idCounter (fail rid msg now s) = idCounter s"
  "kvManager (fail rid msg now s) = kvManager s"
  "activePrefills (fail rid msg now s) = activePrefills s"
  "activeDecodes (fail rid msg now s) = activeDecodes s"
  by (simp_all add: fail_def Let_def split: option.splits)

lemma fail_inflight: "inflight (fail rid msg now s) = AList.delete rid (inflight s)"
proof (cases "map_of (inflight s) rid")
  case None
  then have "rid \<notin> fst ` set (inflight s)" by (simp add: map_of_eq_None_iff)
  then show ?thesis using None by (simp add: fail_def Let_def)
next
  case (Some e)
  then show ?thesis by (simp add: fail_def Let_def)
qed

lemma sweep_queue:
  "n \<le> length (queue s) \<Longrightarrow>
   queue (sweep now n s) = filter (\<lambda>q. \<not> expired now q) (take n (queue s)) @ drop n (queue s)"
proof (induction n arbitrary: s)
  case 0
  then show ?case by simp
next
  case (Suc n)
  then have lt: "n < length (queue s)" by simp
  show ?case
  proof (cases "expired now (queue s ! n)")
    case True
    let ?s' = "fail (requestId (queue s ! n)) ''Request timed out in queue'' now
                 (s\<lparr>queue := take n (queue s) @ drop (Suc n) (queue s)\<rparr>)"
    have "n \<le> length (queue ?s')" using lt by simp
    from Suc.IH [OF this] show ?thesis
      using True lt by (simp add: Let_def take_Suc_conv_app_nth)
  next
    case False
    from Suc.IH [of s] show ?thesis
      using False lt by (simp add: Let_def take_Suc_conv_app_nth Cons_nth_drop_Suc)
  qed
qed

lemma sweep_fields [simp]:
  "pool (sweep now n s) = pool s"
  "config (sweep now n s) = config s"
  "pipelines (sweep now n s) = pipelines s"
  "idCounter (sweep now n s) = idCounter s"
  by (induction n arbitrary: s; simp add: Let_def)+

lemma dispatch_queue:
  assumes "dispatch now s = (launched, s')"
  shows "queue s' = (case launched of None \<Rightarrow> kept now s | Some _ \<Rightarrow> tl (kept now s))"
    and "launched = (case fst (select prefill (strategy (config s)) (pool s)) of
             None \<Rightarrow> None
           | Some w \<Rightarrow> (case kept now s of [] \<Rightarrow> None | r # _ \<Rightarrow> Some (r, worker_id w)))"
    and "pipelines s' = pipelines s"
  using assms
  by (auto simp: dispatch_def Let_def sweep_queue kept_def
           split: prod.splits option.splits list.splits if_splits)

lemma select_none_available: "available p r = [] \<Longrightarrow> fst (select r st p) = None"
  by (simp add: select_def)

lemma kept_head_minimal:
  assumes "kept now s = r # rest"
  shows "r \<in> set (queue s) \<and> \<not> expired now r \<and>
         (\<forall>q \<in> set (queue s). \<not> expired now q \<longrightarrow> req_le r q)"
proof -
  have srt: "sorted_wrt req_le (kept now s)"
    unfolding kept_def by (intro sorted_wrt_filter sorted_sort_cmp)
  have mem: "set (kept now s) = {q \<in> set (queue s). \<not> expired now q}"
    by (auto simp: kept_def)
  have "r \<in> set (kept now s)" using assms by simp
  then have r: "r \<in> set (queue s) \<and> \<not> expired now r" using mem by auto
  have "\<forall>q \<in> set rest. req_le r q" using srt assms by simp
  then have "\<forall>q \<in> set (kept now s). req_le r q" using assms by (auto simp: req_le_refl)
  then show ?thesis using r mem by auto
qed

text \<open>
  Claim C2. \<open>submit\<close> rejects at once with "Scheduler queue is full" exactly when the
  queue holds at least \<open>maxQueueSize\<close> requests; the rejection leaves the whole
  scheduler, with its queue, in-flight table and id counter, as it was; with
  \<open>maxQueueSize = 0\<close> every call is rejected so.
\<close>

theorem C2_submit_queue_full:
  "(fst (submit opts now s) = Inl QueueFull \<longleftrightarrow> maxQueueSize (config s) \<le> int (length (queue s))) \<and>
   (maxQueueSize (config s) \<le> int (length (queue s)) \<longrightarrow> submit opts now s = (Inl QueueFull, s)) \<and>
   (maxQueueSize (config s) = 0 \<longrightarrow> submit opts now s = (Inl QueueFull, s))"
  by (auto simp: submit_def Let_def split: prod.splits)

theorem C2_submit_queue_full_witness:
  "maxQueueSize (config (new_PDScheduler (cfg0 0) 0)) = 0 \<and>
   submit (opts0 None None) 7 (new_PDScheduler (cfg0 0) 0) = (Inl QueueFull, new_PDScheduler (cfg0 0) 0) \<and>
   \<not> maxQueueSize (config (new_PDScheduler (cfg0 10) 0)) \<le> int (length (queue (new_PDScheduler (cfg0 10) 0))) \<and>
   fst (submit (opts0 None None) 7 (new_PDScheduler (cfg0 10) 0)) \<noteq> Inl QueueFull"
  using C2_submit_queue_full [of "opts0 None None" 7 "new_PDScheduler (cfg0 0) 0"]
        C2_submit_queue_full [of "opts0 None None" 7 "new_PDScheduler (cfg0 10) 0"]
  by (simp add: new_PDScheduler_def cfg0_def)

text \<open>
  Claim C3. A call of \<open>dispatch\<close> hands at most one request to the pipeline. The queue
  it leaves is the sorted queue without the expired requests, less its head when a
  request is launched; the launched request was queued, is not expired, and is least
  among the queued requests that are not expired, in the order by priority rank and
  then \<open>createdAt\<close>. When no prefill worker is available, nothing is launched and
  every request that is not expired stays queued. A tick adds at most one pipeline.
\<close>

theorem C3_dispatch_at_most_one_minimum:
  "dispatch now s = (launched, s') \<longrightarrow>
     queue s' = (case launched of None \<Rightarrow> kept now s | Some _ \<Rightarrow> tl (kept now s)) \<and>
     (\<forall>r w. launched = Some (r, w) \<longrightarrow>
        kept now s = r # queue s' \<and> r \<in> set (queue s) \<and> \<not> expired now r \<and>
        (\<forall>q \<in> set (queue s). \<not> expired now q \<longrightarrow> req_le r q)) \<and>
     (available (pool s) prefill = [] \<longrightarrow> launched = None \<and> queue s' = kept now s) \<and>
     length (pipelines (dispatch_tick now s)) \<le> length (pipelines s) + 1"
proof
  assume d: "dispatch now s = (launched, s')"
  note q = dispatch_queue(1) [OF d] and l = dispatch_queue(2) [OF d] and p = dispatch_queue(3) [OF d]
  have a: "\<forall>r w. launched = Some (r, w) \<longrightarrow>
        kept now s = r # queue s' \<and> r \<in> set (queue s) \<and> \<not> expired now r \<and>
        (\<forall>q \<in> set (queue s). \<not> expired now q \<longrightarrow> req_le r q)"
  proof (intro allI impI)
    fix r w
    assume ls: "launched = Some (r, w)"
    then obtain rest where k: "kept now s = r # rest"
      using l by (auto split: option.splits list.splits)
    then have "queue s' = rest" using q ls by simp
    then show "kept now s = r # queue s' \<and> r \<in> set (queue s) \<and> \<not> expired now r \<and>
        (\<forall>q \<in> set (queue s). \<not> expired now q \<longrightarrow> req_le r q)"
      using k kept_head_minimal [OF k] by simp
  qed
  have b: "available (pool s) prefill = [] \<longrightarrow> launched = None \<and> queue s' = kept now s"
    using l q select_none_available [of "pool s" prefill "strategy (config s)"] by simp
  have c: "length (pipelines (dispatch_tick now s)) \<le> length (pipelines s) + 1"
    using d p
    by (cases launched) (auto simp: dispatch_tick_def runPipeline_start_def Let_def assign_request_def)
  show "queue s' = (case launched of None \<Rightarrow> kept now s | Some _ \<Rightarrow> tl (kept now s)) \<and>
     (\<forall>r w. launched = Some (r, w) \<longrightarrow>
        kept now s = r # queue s' \<and> r \<in> set (queue s) \<and> \<not> expired now r \<and>
        (\<forall>q \<in> set (queue s). \<not> expired now q \<longrightarrow> req_le r q)) \<and>
     (available (pool s) prefill = [] \<longrightarrow> launched = None \<and> queue s' = kept now s) \<and>
     length (pipelines (dispatch_tick now s)) \<le> length (pipelines s) + 1"
    using q a b c by blast
qed

lemma last_emit: "last (eventLog (emit e h)) = e"
proof (cases "eventLog h")
  case Nil
  then show ?thesis by (simp add: emit_def Let_def)
next
  case (Cons x xs)
  then show ?thesis by (simp add: emit_def Let_def)
qed

text \<open>
  Claim C8, as the code has it. \<open>fail\<close> counts the failure and emits
  \<open>request_failed\<close> before it looks the id up. For an id with no entry in the
  in-flight table it then does nothing more: the failure counter has gone up by one,
  the event is the newest in the log, and the rest of the scheduler (queue, in-flight
  table, settled promises, pool, transfer manager, pipelines, counters) is unchanged.
\<close>

theorem C8_fail_unknown_id:
  "map_of (inflight s) rid = None \<longrightarrow>
     fail rid msg now s = s\<lparr>health := emit (request_failed rid msg now) (recordFailure (health s))\<rparr> \<and>
     counters_failed (health (fail rid msg now s)) = counters_failed (health s) + 1 \<and>
     last (eventLog (health (fail rid msg now s))) = request_failed rid msg now \<and>
     queue (fail rid msg now s) = queue s \<and>
     inflight (fail rid msg now s) = inflight s \<and>
     settled (fail rid msg now s) = settled s"
  by (simp add: fail_def Let_def last_emit) (simp add: emit_def recordFailure_def Let_def)

theorem C8_fail_unknown_id_witness:
  "map_of (inflight (new_PDScheduler (cfg0 10) 0)) ''req-9-9'' = None \<and>
   counters_failed (health (fail ''req-9-9'' ''boom'' 5 (new_PDScheduler (cfg0 10) 0))) = 1 \<and>
   settled (fail ''req-9-9'' ''boom'' 5 (new_PDScheduler (cfg0 10) 0)) = []"
proof -
  have n: "map_of (inflight (new_PDScheduler (cfg0 10) 0)) ''req-9-9'' = None"
    by (simp add: new_PDScheduler_def)
  have "counters_failed (health (fail ''req-9-9'' ''boom'' 5 (new_PDScheduler (cfg0 10) 0)))
          = counters_failed (health (new_PDScheduler (cfg0 10) 0)) + 1 \<and>
        settled (fail ''req-9-9'' ''boom'' 5 (new_PDScheduler (cfg0 10) 0))
          = settled (new_PDScheduler (cfg0 10) 0)"
    using C8_fail_unknown_id [of "new_PDScheduler (cfg0 10) 0" "''req-9-9''" "''boom''" 5] n
    by blast
  then show ?thesis
    using n by (simp add: new_PDScheduler_def new_HealthMonitor_def)
qed

text \<open>
  Claim C8 as stated fails: on a fresh scheduler, whose in-flight table is empty,
  \<open>fail\<close> raises the failure counter from 0 to 1 and logs a \<open>request_failed\<close> event.
\<close>

theorem C8_counterexample:
  "map_of (inflight (new_PDScheduler (cfg0 10) 0)) ''req-9-9'' = None \<and>
   counters_failed (health (new_PDScheduler (cfg0 10) 0)) = 0 \<and>
   counters_failed (health (fail ''req-9-9'' ''boom'' 5 (new_PDScheduler (cfg0 10) 0))) = 1 \<and>
   eventLog (health (new_PDScheduler (cfg0 10) 0)) = [] \<and>
   eventLog (health (fail ''req-9-9'' ''boom'' 5 (new_PDScheduler (cfg0 10) 0)))
     = [request_failed ''req-9-9'' ''boom'' 5]"
  by (simp add: fail_def new_PDScheduler_def new_HealthMonitor_def recordFailure_def emit_def
                Let_def)

theorem C3_dispatch_at_most_one_minimum_witness:
  "map_option (\<lambda>(r, w). (requestId r, w)) (fst (dispatch 50 (sched_abc pool_p1_p2)))
     = Some (''req-2-3'', ''p1'') \<and>
   map requestId (queue (snd (dispatch 50 (sched_abc pool_p1_p2)))) = [''req-0-1''] \<and>
   available (pool (sched_abc new_WorkerPool)) prefill = [] \<and>
   fst (dispatch 50 (sched_abc new_WorkerPool)) = None \<and>
   map requestId (queue (snd (dispatch 50 (sched_abc new_WorkerPool)))) = [''req-2-3'', ''req-0-1'']"
proof -
  have k: "map requestId (kept 50 (sched_abc p)) = [''req-2-3'', ''req-0-1'']" for p
    by (simp add: kept_def sched_abc_def new_PDScheduler_def req0_def sort_cmp_def
                  compareRequests_def expired_def Let_def)
  have av: "map worker_id (available pool_p1_p2 prefill) = [''p1'', ''p2'']"
    by (simp add: pool_p1_p2_def run_pool_ops_def register_def seed_p1_def seed_p2_def
                  new_WorkerPool_def available_def list_workers_def Let_def)
  have sel: "map_option worker_id
               (fst (select prefill (strategy (config (sched_abc pool_p1_p2))) (pool (sched_abc pool_p1_p2))))
             = Some ''p1''"
    by (simp add: select_def sched_abc_def new_PDScheduler_def cfg0_def Let_def
                  pool_p1_p2_def run_pool_ops_def register_def seed_p1_def seed_p2_def
                  new_WorkerPool_def available_def list_workers_def)
  have nosel: "available (pool (sched_abc new_WorkerPool)) prefill = []"
    by (simp add: sched_abc_def new_PDScheduler_def available_def list_workers_def
                  new_WorkerPool_def)
  note w1 = C3_dispatch_at_most_one_minimum
              [of 50 "sched_abc pool_p1_p2" "fst (dispatch 50 (sched_abc pool_p1_p2))"
                  "snd (dispatch 50 (sched_abc pool_p1_p2))"]
  note w2 = C3_dispatch_at_most_one_minimum
              [of 50 "sched_abc new_WorkerPool" "fst (dispatch 50 (sched_abc new_WorkerPool))"
                  "snd (dispatch 50 (sched_abc new_WorkerPool))"]
  have h2: "dispatch 50 (sched_abc new_WorkerPool) =
              (fst (dispatch 50 (sched_abc new_WorkerPool)), snd (dispatch 50 (sched_abc new_WorkerPool)))"
    by simp
  have l2: "fst (dispatch 50 (sched_abc new_WorkerPool)) = None"
    using w2 h2 nosel by blast
  have q2: "queue (snd (dispatch 50 (sched_abc new_WorkerPool))) = kept 50 (sched_abc new_WorkerPool)"
    using w2 h2 nosel by blast
  obtain r rest where kr: "kept 50 (sched_abc pool_p1_p2) = r # rest"
    using k [of pool_p1_p2] by (cases "kept 50 (sched_abc pool_p1_p2)") auto
  obtain w where sw: "fst (select prefill (strategy (config (sched_abc pool_p1_p2)))
                            (pool (sched_abc pool_p1_p2))) = Some w"
    using sel by auto
  have l1: "fst (dispatch 50 (sched_abc pool_p1_p2)) = Some (r, worker_id w)"
    using dispatch_queue(2) [of 50 "sched_abc pool_p1_p2" "fst (dispatch 50 (sched_abc pool_p1_p2))"
                                "snd (dispatch 50 (sched_abc pool_p1_p2))"] kr sw
    by simp
  have h1: "dispatch 50 (sched_abc pool_p1_p2) =
              (fst (dispatch 50 (sched_abc pool_p1_p2)), snd (dispatch 50 (sched_abc pool_p1_p2)))"
    by simp
  have q1: "kept 50 (sched_abc pool_p1_p2) = r # queue (snd (dispatch 50 (sched_abc pool_p1_p2)))"
    using w1 h1 l1 by blast
  show ?thesis
    using l1 l2 q1 q2 k [of pool_p1_p2] k [of new_WorkerPool] sel sw nosel by auto
qed

lemma fail_settled_other:
  "rid \<noteq> k \<Longrightarrow>
   filter (\<lambda>e. fst e = k) (settled (fail rid msg now s)) = filter (\<lambda>e. fst e = k) (settled s)"
  by (simp add: fail_def Let_def split: option.splits)

lemma sweep_untouched:
  "n \<le> length (queue s) \<Longrightarrow>
   \<forall>q \<in> set (take n (queue s)). expired now q \<longrightarrow> requestId q \<noteq> k \<Longrightarrow>
   map_of (inflight (sweep now n s)) k = map_of (inflight s) k \<and>
   filter (\<lambda>e. fst e = k) (settled (sweep now n s)) = filter (\<lambda>e. fst e = k) (settled s)"
proof (induction n arbitrary: s)
  case 0
  then show ?case by simp
next
  case (Suc n)
  then have lt: "n < length (queue s)" by simp
  have others: "\<forall>q \<in> set (take n (queue s)). expired now q \<longrightarrow> requestId q \<noteq> k"
    using Suc.prems(2) lt by (simp add: take_Suc_conv_app_nth)
  show ?case
  proof (cases "expired now (queue s ! n)")
    case True
    let ?rid = "requestId (queue s ! n)"
    let ?s' = "fail ?rid ''Request timed out in queue'' now
                 (s\<lparr>queue := take n (queue s) @ drop (Suc n) (queue s)\<rparr>)"
    have ne: "?rid \<noteq> k"
      using Suc.prems(2) lt True by (simp add: take_Suc_conv_app_nth)
    have len: "n \<le> length (queue ?s')" using lt by simp
    have tk: "take n (queue ?s') = take n (queue s)" using lt by simp
    have others': "\<forall>q \<in> set (take n (queue ?s')). expired now q \<longrightarrow> requestId q \<noteq> k"
      unfolding tk by (rule others)
    have ih: "map_of (inflight (sweep now n ?s')) k = map_of (inflight ?s') k \<and>
              filter (\<lambda>e. fst e = k) (settled (sweep now n ?s')) = filter (\<lambda>e. fst e = k) (settled ?s')"
      by (rule Suc.IH [OF len others'])
    have a: "map_of (inflight ?s') k = map_of (inflight s) k"
      using ne by (simp add: fail_inflight)
    have b: "filter (\<lambda>e. fst e = k) (settled ?s') = filter (\<lambda>e. fst e = k) (settled s)"
      using ne by (simp add: fail_settled_other)
    show ?thesis using True ih a b by (simp add: Let_def)
  next
    case False
    then show ?thesis using Suc.IH [of s] lt others by (simp add: Let_def)
  qed
qed

lemma dispatch_tables:
  assumes "dispatch now s = (launched, s')"
  shows "inflight s' = inflight (sweep now (length (queue s)) (s\<lparr>queue := sort_cmp compareRequests (queue s)\<rparr>))"
    and "settled s' = settled (sweep now (length (queue s)) (s\<lparr>queue := sort_cmp compareRequests (queue s)\<rparr>))"
    and "idCounter s' = idCounter s"
  using assms
  by (auto simp: dispatch_def Let_def split: prod.splits option.splits list.splits if_splits)

text \<open>
  Claim C10. A request submitted with \<open>timeoutMs = 0\<close> is queued with that value; the
  timeout test of a tick is false for it at every time; a tick leaves it in the queue or
  launches it; and, ids in the queue being distinct, the tick neither removes its entry
  from the in-flight table nor settles its promise.
\<close>

theorem C10_zero_timeout_never_expires:
  "(opt_timeoutMs opts = Some 0 \<and> int (length (queue s)) < maxQueueSize (config s) \<longrightarrow>
      timeoutMs (last (queue (snd (submit opts t s)))) = 0) \<and>
   (timeoutMs r = 0 \<longrightarrow> \<not> expired now r) \<and>
   (timeoutMs r = 0 \<and> r \<in> set (queue s) \<and> dispatch now s = (launched, s') \<longrightarrow>
      (r \<in> set (queue s') \<or> (\<exists>w. launched = Some (r, w)))) \<and>
   (timeoutMs r = 0 \<and> r \<in> set (queue s) \<and> distinct (map requestId (queue s)) \<and>
    dispatch now s = (launched, s') \<longrightarrow>
      map_of (inflight s') (requestId r) = map_of (inflight s) (requestId r) \<and>
      filter (\<lambda>e. fst e = requestId r) (settled s') = filter (\<lambda>e. fst e = requestId r) (settled s))"
proof -
  have c1: "opt_timeoutMs opts = Some 0 \<and> int (length (queue s)) < maxQueueSize (config s) \<longrightarrow>
      timeoutMs (last (queue (snd (submit opts t s)))) = 0"
    by (simp add: submit_def generateRequestId_def Let_def)
  have c2: "timeoutMs r = 0 \<longrightarrow> \<not> expired now r"
    by (simp add: expired_def)
  have c3: "timeoutMs r = 0 \<and> r \<in> set (queue s) \<and> dispatch now s = (launched, s') \<longrightarrow>
      (r \<in> set (queue s') \<or> (\<exists>w. launched = Some (r, w)))"
  proof
    assume a: "timeoutMs r = 0 \<and> r \<in> set (queue s) \<and> dispatch now s = (launched, s')"
    then have rk: "r \<in> set (kept now s)" by (simp add: kept_def expired_def)
    show "r \<in> set (queue s') \<or> (\<exists>w. launched = Some (r, w))"
    proof (cases launched)
      case None
      then show ?thesis using dispatch_queue(1) [of now s launched s'] a rk by simp
    next
      case (Some x)
      obtain x1 w where x: "x = (x1, w)" by (cases x)
      have l: "launched = Some (x1, w)" using Some x by simp
      have "kept now s = x1 # tl (kept now s)"
        using dispatch_queue(2) [of now s launched s'] a l
        by (auto split: option.splits list.splits)
      moreover have "queue s' = tl (kept now s)"
        using dispatch_queue(1) [of now s launched s'] a l by simp
      ultimately have "r = x1 \<or> r \<in> set (queue s')"
        using rk by (metis set_ConsD)
      then show ?thesis using l by auto
    qed
  qed
  have c4: "timeoutMs r = 0 \<and> r \<in> set (queue s) \<and> distinct (map requestId (queue s)) \<and>
    dispatch now s = (launched, s') \<longrightarrow>
      map_of (inflight s') (requestId r) = map_of (inflight s) (requestId r) \<and>
      filter (\<lambda>e. fst e = requestId r) (settled s') = filter (\<lambda>e. fst e = requestId r) (settled s)"
  proof
    assume a: "timeoutMs r = 0 \<and> r \<in> set (queue s) \<and> distinct (map requestId (queue s)) \<and>
               dispatch now s = (launched, s')"
    let ?s1 = "s\<lparr>queue := sort_cmp compareRequests (queue s)\<rparr>"
    have inj: "inj_on requestId (set (queue s))"
      using a by (simp add: distinct_map)
    have "\<forall>q \<in> set (take (length (queue ?s1)) (queue ?s1)).
            expired now q \<longrightarrow> requestId q \<noteq> requestId r"
    proof (intro ballI impI)
      fix q
      assume q: "q \<in> set (take (length (queue ?s1)) (queue ?s1))" and e: "expired now q"
      have "q \<in> set (queue s)" using q by simp
      moreover have "q \<noteq> r" using e a by (auto simp: expired_def)
      ultimately show "requestId q \<noteq> requestId r"
        using inj a by (auto dest: inj_onD)
    qed
    then have "map_of (inflight (sweep now (length (queue ?s1)) ?s1)) (requestId r)
                 = map_of (inflight ?s1) (requestId r) \<and>
               filter (\<lambda>e. fst e = requestId r) (settled (sweep now (length (queue ?s1)) ?s1))
                 = filter (\<lambda>e. fst e = requestId r) (settled ?s1)"
      by (intro sweep_untouched) simp_all
    then show "map_of (inflight s') (requestId r) = map_of (inflight s) (requestId r) \<and>
        filter (\<lambda>e. fst e = requestId r) (settled s') = filter (\<lambda>e. fst e = requestId r) (settled s)"
      using dispatch_tables(1,2) [of now s launched s'] a by simp
  qed
  show ?thesis using c1 c2 c3 c4 by blast
qed

theorem C10_zero_timeout_never_expires_witness:
  "opt_timeoutMs (opts0 None (Some 0)) = Some 0 \<and>
   int (length (queue (new_PDScheduler (cfg0 10) 0))) < maxQueueSize (config (new_PDScheduler (cfg0 10) 0)) \<and>
   map timeoutMs (queue (snd (submit (opts0 None (Some 0)) 3 (new_PDScheduler (cfg0 10) 0)))) = [0] \<and>
   timeoutMs (req0 ''req-2-3'' high 2 0) = 0 \<and>
   req0 ''req-2-3'' high 2 0 \<in> set (queue (sched_abc new_WorkerPool)) \<and>
   distinct (map requestId (queue (sched_abc new_WorkerPool))) \<and>
   \<not> expired 1000000 (req0 ''req-2-3'' high 2 0) \<and>
   req0 ''req-2-3'' high 2 0 \<in> set (queue (snd (dispatch 1000000 (sched_abc new_WorkerPool)))) \<and>
   map_of (inflight (snd (dispatch 1000000 (sched_abc new_WorkerPool)))) ''req-2-3''
     = Some (req0 ''req-2-3'' high 2 0) \<and>
   filter (\<lambda>e. fst e = ''req-2-3'') (settled (snd (dispatch 1000000 (sched_abc new_WorkerPool)))) = []"
proof -
  let ?s = "sched_abc new_WorkerPool" and ?r = "req0 ''req-2-3'' high 2 0"
  have h1: "opt_timeoutMs (opts0 None (Some 0)) = Some 0 \<and>
            int (length (queue (new_PDScheduler (cfg0 10) 0))) < maxQueueSize (config (new_PDScheduler (cfg0 10) 0))"
    by (simp add: opts0_def new_PDScheduler_def cfg0_def)
  have h2: "timeoutMs ?r = 0" by (simp add: req0_def)
  have h3: "?r \<in> set (queue ?s)" by (simp add: sched_abc_def)
  have h4: "distinct (map requestId (queue ?s))" by (simp add: sched_abc_def req0_def)
  have h5: "dispatch 1000000 ?s = (fst (dispatch 1000000 ?s), snd (dispatch 1000000 ?s))" by simp
  have nol: "fst (dispatch 1000000 ?s) = None"
    using dispatch_queue(2) [OF h5]
    by (simp add: select_def sched_abc_def new_PDScheduler_def cfg0_def available_def
                  list_workers_def new_WorkerPool_def)
  note w0 = C10_zero_timeout_never_expires
             [of "opts0 None (Some 0)" "new_PDScheduler (cfg0 10) 0" 3 ?r 1000000
                 "fst (dispatch 1000000 ?s)" "snd (dispatch 1000000 ?s)"]
  note w = C10_zero_timeout_never_expires
             [of "opts0 None (Some 0)" ?s 3 ?r 1000000
                 "fst (dispatch 1000000 ?s)" "snd (dispatch 1000000 ?s)"]
  have a: "timeoutMs (last (queue (snd (submit (opts0 None (Some 0)) 3 (new_PDScheduler (cfg0 10) 0))))) = 0"
    using w0 h1 by blast
  have q: "queue (snd (submit (opts0 None (Some 0)) 3 (new_PDScheduler (cfg0 10) 0)))
             = [last (queue (snd (submit (opts0 None (Some 0)) 3 (new_PDScheduler (cfg0 10) 0))))]"
    by (simp add: submit_def generateRequestId_def Let_def new_PDScheduler_def cfg0_def)
  have a': "map timeoutMs (queue (snd (submit (opts0 None (Some 0)) 3 (new_PDScheduler (cfg0 10) 0)))) = [0]"
    using a by (subst q) simp
  have b: "\<not> expired 1000000 ?r" using w h2 by blast
  have c: "?r \<in> set (queue (snd (dispatch 1000000 ?s))) \<or>
           (\<exists>x. fst (dispatch 1000000 ?s) = Some (?r, x))"
    using w h2 h3 h5 by blast
  then have c': "?r \<in> set (queue (snd (dispatch 1000000 ?s)))"
    using nol by simp
  have d: "map_of (inflight (snd (dispatch 1000000 ?s))) (requestId ?r)
             = map_of (inflight ?s) (requestId ?r) \<and>
           filter (\<lambda>e. fst e = requestId ?r) (settled (snd (dispatch 1000000 ?s)))
             = filter (\<lambda>e. fst e = requestId ?r) (settled ?s)"
    using w h2 h3 h4 h5 by blast
  have e: "requestId ?r = ''req-2-3''" by (simp add: req0_def)
  have f: "map_of (inflight ?s) ''req-2-3'' = Some ?r \<and> settled ?s = []"
    by (simp add: sched_abc_def new_PDScheduler_def)
  show ?thesis
    using h1 h2 h3 h4 a' b c' d e f by simp
qed

section \<open>PDScheduler: the queue and the in-flight table\<close>

lemma digit_char_inj: "a < 10 \<Longrightarrow> b < 10 \<Longrightarrow> digit_char a = digit_char b \<Longrightarrow> a = b"
  unfolding digit_char_def
  using nth_eq_iff_index_eq [of "''0123456789''" a b] by simp

lemma digit_char_no_dash: "d < 10 \<Longrightarrow> digit_char d \<noteq> CHR ''-''"
proof -
  assume "d < 10"
  then have "digit_char d \<in> set ''0123456789''"
    unfolding digit_char_def by (intro nth_mem) simp
  then show ?thesis by auto
qed

lemma show_nat_nonempty: "show_nat n \<noteq> []"
  by (subst show_nat.simps) simp

lemma show_nat_no_dash: "CHR ''-'' \<notin> set (show_nat n)"
proof (induction n rule: show_nat.induct)
  case (1 n)
  show ?case
  proof (cases "n < 10")
    case True
    then show ?thesis
      using digit_char_no_dash [of n] by (subst show_nat.simps) auto
  next
    case False
    then show ?thesis
      using "1.IH" digit_char_no_dash [of "n mod 10"] by (subst show_nat.simps) auto
  qed
qed

lemma show_nat_inj: "show_nat n = show_nat m \<Longrightarrow> n = m"
proof (induction n arbitrary: m rule: show_nat.induct)
  case (1 n)
  show ?case
  proof (cases "n < 10")
    case n: True
    show ?thesis
    proof (cases "m < 10")
      case True
      then show ?thesis
        using "1.prems" n digit_char_inj [of n m]
        by (simp add: show_nat.simps [of n] show_nat.simps [of m])
    next
      case False
      then show ?thesis
        using "1.prems" n show_nat_nonempty [of "m div 10"]
        by (simp add: show_nat.simps [of n] show_nat.simps [of m])
    qed
  next
    case n: False
    show ?thesis
    proof (cases "m < 10")
      case True
      then show ?thesis
        using "1.prems" n show_nat_nonempty [of "n div 10"]
        by (simp add: show_nat.simps [of n] show_nat.simps [of m])
    next
      case False
      then have e: "show_nat (n div 10) = show_nat (m div 10) \<and>
                    digit_char (n mod 10) = digit_char (m mod 10)"
        using "1.prems" n by (simp add: show_nat.simps [of n] show_nat.simps [of m])
      then have "n div 10 = m div 10" using "1.IH" n by simp
      moreover have "n mod 10 = m mod 10"
        using e digit_char_inj [of "n mod 10" "m mod 10"] by simp
      ultimately show ?thesis by (metis div_mult_mod_eq)
    qed
  qed
qed

lemma request_id_string_inj:
  "request_id_string t c = request_id_string t' c' \<Longrightarrow> c = c'"
proof -
  assume "request_id_string t c = request_id_string t' c'"
  then have "show_nat t @ CHR ''-'' # show_nat c = show_nat t' @ CHR ''-'' # show_nat c'"
    by (simp add: request_id_string_def)
  then have "show_nat c = show_nat c'"
    using append_Cons_eq_iff [where x = "CHR ''-''" and xs = "show_nat t" and ys = "show_nat c"
                                and xs' = "show_nat t'" and ys' = "show_nat c'"]
          show_nat_no_dash [of t] show_nat_no_dash [of c]
    by simp
  then show ?thesis by (rule show_nat_inj)
qed

lemma issued_fresh: "issued c k \<Longrightarrow> k \<noteq> request_id_string t (Suc c)"
  by (auto simp: issued_def dest: request_id_string_inj)

lemma issued_Suc: "issued c k \<Longrightarrow> issued (Suc c) k"
  by (auto simp: issued_def intro: le_SucI)

lemma map_fst_map_entry: "map fst (AList.map_entry k f al) = map fst al"
  by (induction al) auto

lemma assign_request_fields [simp]:
  "queue (assign_request rid f s) = queue s"
  "pipelines (assign_request rid f s) = pipelines s"
  "idCounter (assign_request rid f s) = idCounter s"
  "pool (assign_request rid f s) = pool s"
  "config (assign_request rid f s) = config s"
  "health (assign_request rid f s) = health s"
  "kvManager (assign_request rid f s) = kvManager s"
  "activePrefills (assign_request rid f s) = activePrefills s"
  "activeDecodes (assign_request rid f s) = activeDecodes s"
  "queue_ids (assign_request rid f s) = queue_ids s"
  "pipeline_ids (assign_request rid f s) = pipeline_ids s"
  "inflight_ids (assign_request rid f s) = inflight_ids s"
  by (simp_all add: assign_request_def inflight_ids_def queue_ids_def pipeline_ids_def
                    map_fst_map_entry)

lemma ids_updates [simp]:
  "queue_ids (s\<lparr>pool := p\<rparr>) = queue_ids s"
  "queue_ids (s\<lparr>health := h\<rparr>) = queue_ids s"
  "queue_ids (s\<lparr>kvManager := m\<rparr>) = queue_ids s"
  "queue_ids (s\<lparr>activePrefills := a\<rparr>) = queue_ids s"
  "queue_ids (s\<lparr>activeDecodes := a\<rparr>) = queue_ids s"
  "queue_ids (s\<lparr>pipelines := pls\<rparr>) = queue_ids s"
  "pipeline_ids (s\<lparr>pool := p\<rparr>) = pipeline_ids s"
  "pipeline_ids (s\<lparr>health := h\<rparr>) = pipeline_ids s"
  "pipeline_ids (s\<lparr>kvManager := m\<rparr>) = pipeline_ids s"
  "pipeline_ids (s\<lparr>activePrefills := a\<rparr>) = pipeline_ids s"
  "pipeline_ids (s\<lparr>activeDecodes := a\<rparr>) = pipeline_ids s"
  "pipeline_ids (s\<lparr>queue := q\<rparr>) = pipeline_ids s"
  "inflight_ids (s\<lparr>pool := p\<rparr>) = inflight_ids s"
  "inflight_ids (s\<lparr>health := h\<rparr>) = inflight_ids s"
  "inflight_ids (s\<lparr>kvManager := m\<rparr>) = inflight_ids s"
  "inflight_ids (s\<lparr>activePrefills := a\<rparr>) = inflight_ids s"
  "inflight_ids (s\<lparr>activeDecodes := a\<rparr>) = inflight_ids s"
  "inflight_ids (s\<lparr>queue := q\<rparr>) = inflight_ids s"
  "inflight_ids (s\<lparr>pipelines := pls\<rparr>) = inflight_ids s"
  by (simp_all add: queue_ids_def pipeline_ids_def inflight_ids_def)

lemma fail_ids [simp]:
  "queue_ids (fail rid msg now s) = queue_ids s"
  "pipeline_ids (fail rid msg now s) = pipeline_ids s"
  "inflight_ids (fail rid msg now s) = removeAll rid (inflight_ids s)"
  by (simp_all add: queue_ids_def pipeline_ids_def inflight_ids_def fail_inflight
                    AList.delete_keys)

text \<open>The two facts of the invariant that are about lists of ids only.\<close>

lemma ids_remove_queued:
  assumes "distinct (Q @ P)" and "set K = set Q \<union> set P" and "n < length Q"
  shows "distinct ((take n Q @ drop (Suc n) Q) @ P) \<and>
         set (removeAll (Q ! n) K) = set (take n Q @ drop (Suc n) Q) \<union> set P"
proof -
  have q: "Q = take n Q @ Q ! n # drop (Suc n) Q"
    using assms(3) by (rule id_take_nth_drop)
  have d: "distinct (take n Q @ Q ! n # drop (Suc n) Q @ P)"
    using assms(1) q by (metis append.assoc append_Cons)
  then have d': "distinct ((take n Q @ drop (Suc n) Q) @ P)" by auto
  have "set Q = insert (Q ! n) (set (take n Q @ drop (Suc n) Q))"
    using q by (metis list.simps(15) set_append Un_insert_right)
  moreover have "Q ! n \<notin> set (take n Q @ drop (Suc n) Q) \<union> set P"
    using d by auto
  ultimately show ?thesis using d' assms(2) by auto
qed

lemma ids_remove_pipeline:
  assumes "distinct (Q @ map f pls)" and "set K = set Q \<union> set (map f pls)" and "pl \<in> set pls"
  shows "distinct (Q @ map f (remove1 pl pls)) \<and>
         set (removeAll (f pl) K) = set Q \<union> set (map f (remove1 pl pls)) \<and>
         f pl \<notin> set Q \<union> set (map f (remove1 pl pls))"
proof -
  have dm: "distinct (map f pls)" and dq: "distinct Q" and disj: "set Q \<inter> set (map f pls) = {}"
    using assms(1) by auto
  have inj: "inj_on f (set pls)" and dp: "distinct pls"
    using dm by (auto simp: distinct_map)
  have s1: "set (remove1 pl pls) = set pls - {pl}"
    using dp by simp
  have s2: "f ` (set pls - {pl}) = f ` set pls - {f pl}"
    using inj assms(3) by (auto dest: inj_onD)
  have d1: "distinct (map f (remove1 pl pls))"
    using dp inj s1 by (auto simp: distinct_map intro: inj_on_subset)
  have "f pl \<in> set (map f pls)" using assms(3) by simp
  then have nq: "f pl \<notin> set Q" using disj by auto
  show ?thesis
    using d1 dq disj s1 s2 nq assms(2) by auto
qed

lemma sched_inv_submit: "sched_inv s \<Longrightarrow> sched_inv (snd (submit opts now s))"
proof (cases "maxQueueSize (config s) \<le> int (length (queue s))")
  case True
  assume "sched_inv s"
  then show ?thesis using True by (simp add: submit_def)
next
  case False
  assume inv: "sched_inv s"
  let ?rid = "request_id_string now (Suc (idCounter s))"
  let ?s' = "snd (submit opts now s)"
  have q: "queue_ids ?s' = queue_ids s @ [?rid]"
    using False by (simp add: submit_def generateRequestId_def Let_def queue_ids_def)
  have p: "pipeline_ids ?s' = pipeline_ids s"
    using False by (simp add: submit_def generateRequestId_def Let_def pipeline_ids_def)
  have k: "set (inflight_ids ?s') = insert ?rid (set (inflight_ids s))"
    using False
    by (simp add: submit_def generateRequestId_def Let_def inflight_ids_def AList.dom_update)
  have c: "idCounter ?s' = Suc (idCounter s)"
    using False by (simp add: submit_def generateRequestId_def Let_def)
  have fresh: "?rid \<notin> set (inflight_ids s)"
    using inv issued_fresh [of "idCounter s" _ now] by (auto simp: sched_inv_def)
  have "issued (Suc (idCounter s)) ?rid"
    by (auto simp: issued_def)
  then have iss: "\<forall>k \<in> set (inflight_ids ?s'). issued (idCounter ?s') k"
    using inv k c by (auto simp: sched_inv_def intro: issued_Suc)
  show ?thesis
    using inv fresh iss unfolding sched_inv_def q p k by auto
qed

lemma sched_inv_sweep:
  "n \<le> length (queue s) \<Longrightarrow> sched_inv s \<Longrightarrow> sched_inv (sweep now n s)"
proof (induction n arbitrary: s)
  case 0
  then show ?case by simp
next
  case (Suc n)
  then have lt: "n < length (queue s)" by simp
  show ?case
  proof (cases "expired now (queue s ! n)")
    case True
    let ?rid = "requestId (queue s ! n)"
    let ?s' = "fail ?rid ''Request timed out in queue'' now
                 (s\<lparr>queue := take n (queue s) @ drop (Suc n) (queue s)\<rparr>)"
    have lq: "n < length (queue_ids s)" using lt by (simp add: queue_ids_def)
    have rid: "queue_ids s ! n = ?rid" using lt by (simp add: queue_ids_def)
    have q': "queue_ids ?s' = take n (queue_ids s) @ drop (Suc n) (queue_ids s)"
      by (simp add: queue_ids_def take_map drop_map)
    have p': "pipeline_ids ?s' = pipeline_ids s" by (simp add: pipeline_ids_def)
    have k': "inflight_ids ?s' = removeAll ?rid (inflight_ids s)" by simp
    have core: "distinct (queue_ids ?s' @ pipeline_ids ?s') \<and>
                set (inflight_ids ?s') = set (queue_ids ?s') \<union> set (pipeline_ids ?s')"
      using ids_remove_queued [of "queue_ids s" "pipeline_ids s" "inflight_ids s" n]
            Suc.prems(2) lq
      unfolding q' p' k' rid sched_inv_def by simp
    have "\<forall>k \<in> set (inflight_ids ?s'). issued (idCounter ?s') k"
      using Suc.prems(2) unfolding k' by (auto simp: sched_inv_def)
    then have inv': "sched_inv ?s'" using core by (simp add: sched_inv_def)
    have "n \<le> length (queue ?s')" using lt by simp
    from Suc.IH [OF this inv'] show ?thesis using True by (simp add: Let_def)
  next
    case False
    then show ?thesis using Suc.IH [of s] Suc.prems lt by (simp add: Let_def)
  qed
qed

lemma distinct_map_sort_cmp:
  "distinct (map f (sort_cmp cmp xs)) = distinct (map f xs)"
proof -
  have "mset (map f (sort_cmp cmp xs)) = mset (map f xs)" by simp
  then show ?thesis by (rule mset_eq_imp_distinct_iff)
qed

lemma sched_inv_sorted:
  assumes "sched_inv s"
  shows "sched_inv (s\<lparr>queue := sort_cmp compareRequests (queue s)\<rparr>)"
proof -
  let ?s1 = "s\<lparr>queue := sort_cmp compareRequests (queue s)\<rparr>"
  have "set (queue_ids ?s1) = set (queue_ids s)"
    and "distinct (queue_ids ?s1) = distinct (queue_ids s)"
    and "idCounter ?s1 = idCounter s"
    by (simp_all add: queue_ids_def distinct_map_sort_cmp)
  then show ?thesis
    using assms by (simp add: sched_inv_def)
qed

lemma sched_inv_dispatch_tick: "sched_inv s \<Longrightarrow> sched_inv (dispatch_tick now s)"
proof (cases "queue s = []")
  case True
  assume "sched_inv s"
  then show ?thesis using True by (simp add: dispatch_tick_def dispatch_def)
next
  case False
  assume inv: "sched_inv s"
  let ?s1 = "s\<lparr>queue := sort_cmp compareRequests (queue s)\<rparr>"
  let ?s2 = "sweep now (length (queue ?s1)) ?s1"
  have inv2: "sched_inv ?s2"
    by (intro sched_inv_sweep sched_inv_sorted inv) simp
  obtain w p' where sel: "select prefill (strategy (config ?s2)) (pool ?s2) = (w, p')"
    by (cases "select prefill (strategy (config ?s2)) (pool ?s2)")
  let ?s3 = "?s2\<lparr>pool := p'\<rparr>"
  have inv3: "sched_inv ?s3"
    using inv2 by (simp add: sched_inv_def)
  show ?thesis
  proof (cases w)
    case None
    then show ?thesis
      using False sel inv3 by (simp add: dispatch_tick_def dispatch_def Let_def)
  next
    case (Some pw)
    show ?thesis
    proof (cases "queue ?s3")
      case Nil
      then show ?thesis
        using False sel Some inv3 by (simp add: dispatch_tick_def dispatch_def Let_def)
    next
      case (Cons request rest)
      let ?s4 = "runPipeline_start request (worker_id pw) now (?s3\<lparr>queue := rest\<rparr>)"
      have dt: "dispatch_tick now s = ?s4"
        using False sel Some Cons by (simp add: dispatch_tick_def dispatch_def Let_def)
      have q3: "queue_ids ?s3 = requestId request # map requestId rest"
        using Cons by (simp add: queue_ids_def)
      have q4: "queue_ids ?s4 = map requestId rest"
        by (simp add: runPipeline_start_def Let_def queue_ids_def)
      have p4: "pipeline_ids ?s4 = pipeline_ids ?s3 @ [requestId request]"
        by (simp add: runPipeline_start_def Let_def pipeline_ids_def)
      have k4: "inflight_ids ?s4 = inflight_ids ?s3"
        by (simp add: runPipeline_start_def Let_def)
      have c4: "idCounter ?s4 = idCounter ?s3"
        by (simp add: runPipeline_start_def Let_def)
      have "sched_inv ?s4"
        using inv3 unfolding sched_inv_def q3 q4 p4 k4 c4 by auto
      then show ?thesis using dt by simp
    qed
  qed
qed

lemma removeAll_absent: "map_of al k = None \<Longrightarrow> removeAll k (map fst al) = map fst al"
  by (simp add: map_of_eq_None_iff)

lemma afterPrefill_ids:
  assumes "runPipeline_afterPrefill out now pl s = (r, s')"
  shows "queue_ids s' = queue_ids s \<and> pipeline_ids s' = pipeline_ids s \<and>
         idCounter s' = idCounter s \<and>
         (case r of
            None \<Rightarrow> inflight_ids s' = removeAll (requestId (pl_request pl)) (inflight_ids s)
          | Some pl' \<Rightarrow> inflight_ids s' = inflight_ids s \<and>
                        requestId (pl_request pl') = requestId (pl_request pl))"
  using assms
  by (auto simp: runPipeline_afterPrefill_def Let_def
           split: sum.splits option.splits prod.splits)

lemma afterTransfer_ids:
  assumes "runPipeline_afterTransfer pr dw out now pl s = (r, s')"
  shows "queue_ids s' = queue_ids s \<and> pipeline_ids s' = pipeline_ids s \<and>
         idCounter s' = idCounter s \<and>
         (case r of
            None \<Rightarrow> inflight_ids s' = removeAll (requestId (pl_request pl)) (inflight_ids s)
          | Some pl' \<Rightarrow> inflight_ids s' = inflight_ids s \<and>
                        requestId (pl_request pl') = requestId (pl_request pl))"
  using assms
  by (auto simp: runPipeline_afterTransfer_def Let_def
           split: sum.splits option.splits prod.splits if_splits)

lemma afterDecode_ids:
  assumes "runPipeline_afterDecode pr dw out now pl s = (r, s')"
  shows "queue_ids s' = queue_ids s \<and> pipeline_ids s' = pipeline_ids s \<and>
         idCounter s' = idCounter s \<and>
         (case r of
            None \<Rightarrow> inflight_ids s' = removeAll (requestId (pl_request pl)) (inflight_ids s)
          | Some pl' \<Rightarrow> inflight_ids s' = inflight_ids s \<and>
                        requestId (pl_request pl') = requestId (pl_request pl))"
proof (cases out)
  case (Inl err)
  then show ?thesis using assms by (auto simp: runPipeline_afterDecode_def Let_def)
next
  case (Inr decodeResult)
  let ?rid = "requestId (pl_request pl)"
  let ?al = "AList.map_entry ?rid (\<lambda>r. r\<lparr>phase := completed\<rparr>) (inflight s)"
  show ?thesis
  proof (cases "map_of ?al ?rid")
    case None
    then have "removeAll ?rid (map fst ?al) = map fst ?al" by (rule removeAll_absent)
    then have "removeAll ?rid (inflight_ids s) = inflight_ids s"
      by (simp add: inflight_ids_def map_fst_map_entry)
    then show ?thesis
      using assms Inr None
      by (auto simp: runPipeline_afterDecode_def Let_def assign_request_def queue_ids_def
                     pipeline_ids_def inflight_ids_def map_fst_map_entry)
  next
    case (Some entry)
    then show ?thesis
      using assms Inr
      by (auto simp: runPipeline_afterDecode_def Let_def assign_request_def queue_ids_def
                     pipeline_ids_def inflight_ids_def map_fst_map_entry AList.delete_keys)
  qed
qed

lemma continue_pipeline_ids:
  assumes "continue_pipeline a now pl s = Some (r, s')"
  shows "queue_ids s' = queue_ids s \<and> pipeline_ids s' = pipeline_ids s \<and>
         idCounter s' = idCounter s \<and>
         (case r of
            None \<Rightarrow> inflight_ids s' = removeAll (requestId (pl_request pl)) (inflight_ids s)
          | Some pl' \<Rightarrow> inflight_ids s' = inflight_ids s \<and>
                        requestId (pl_request pl') = requestId (pl_request pl))"
proof (cases a)
  case (PrefillSettles out)
  then show ?thesis
    using assms afterPrefill_ids [of out now pl s r s']
    by (cases "pl_stage pl") simp_all
next
  case (TransferSettles out)
  then show ?thesis
    using assms
    by (cases "pl_stage pl") (simp_all add: afterTransfer_ids)
next
  case (DecodeSettles out)
  then show ?thesis
    using assms
    by (cases "pl_stage pl") (simp_all add: afterDecode_ids)
qed

lemma sched_inv_resume:
  assumes inv: "sched_inv s"
  shows "sched_inv (resume rid a now s)"
proof (cases "find (\<lambda>pl. requestId (pl_request pl) = rid) (pipelines s)")
  case None
  then show ?thesis using inv by (simp add: resume_def)
next
  case fnd: (Some pl)
  let ?f = "\<lambda>pl. requestId (pl_request pl)"
  let ?s0 = "s\<lparr>pipelines := remove1 pl (pipelines s)\<rparr>"
  have mem: "pl \<in> set (pipelines s)"
    using fnd by (auto simp: find_Some_iff)
  have rem: "distinct (queue_ids s @ map ?f (remove1 pl (pipelines s))) \<and>
             set (removeAll (?f pl) (inflight_ids s)) =
               set (queue_ids s) \<union> set (map ?f (remove1 pl (pipelines s))) \<and>
             ?f pl \<notin> set (queue_ids s) \<union> set (map ?f (remove1 pl (pipelines s)))"
    using ids_remove_pipeline [of "queue_ids s" ?f "pipelines s" "inflight_ids s" pl] inv mem
    by (simp add: sched_inv_def pipeline_ids_def)
  have inK: "?f pl \<in> set (inflight_ids s)"
    using inv mem by (auto simp: sched_inv_def pipeline_ids_def)
  have p0: "pipeline_ids ?s0 = map ?f (remove1 pl (pipelines s))"
    by (simp add: pipeline_ids_def)
  have iss: "\<forall>k \<in> set (inflight_ids s). issued (idCounter s) k"
    using inv by (simp add: sched_inv_def)
  show ?thesis
  proof (cases "continue_pipeline a now pl ?s0")
    case None
    then show ?thesis using fnd inv by (simp add: resume_def)
  next
    case c: (Some x)
    obtain r s' where x: "x = (r, s')" by (cases x)
    note sh = continue_pipeline_ids [of a now pl ?s0 r s']
    have q': "queue_ids s' = queue_ids s" and p': "pipeline_ids s' = map ?f (remove1 pl (pipelines s))"
      and c': "idCounter s' = idCounter s"
      using sh c x p0 by simp_all
    show ?thesis
    proof (cases r)
      case None
      have k': "inflight_ids s' = removeAll (?f pl) (inflight_ids s)"
        using sh c x None by simp
      have "sched_inv s'"
        using rem iss unfolding sched_inv_def q' p' c' k' by auto
      then show ?thesis using fnd c x None by (simp add: resume_def)
    next
      case (Some pl')
      have k': "inflight_ids s' = inflight_ids s" and same: "?f pl' = ?f pl"
        using sh c x Some by simp_all
      let ?s'' = "s'\<lparr>pipelines := pipelines s' @ [pl']\<rparr>"
      have q'': "queue_ids ?s'' = queue_ids s" using q' by simp
      have p'': "pipeline_ids ?s'' = map ?f (remove1 pl (pipelines s)) @ [?f pl]"
        using p' same by (simp add: pipeline_ids_def)
      have k'': "inflight_ids ?s'' = inflight_ids s" using k' by simp
      have c'': "idCounter ?s'' = idCounter s" using c' by simp
      have "set (inflight_ids s) = insert (?f pl) (set (removeAll (?f pl) (inflight_ids s)))"
        using inK by auto
      then have "sched_inv ?s''"
        using rem iss unfolding sched_inv_def q'' p'' c'' k'' by auto
      then show ?thesis using fnd c x Some by (simp add: resume_def)
    qed
  qed
qed

lemma sched_inv_step: "sched_inv s \<Longrightarrow> sched_inv (sched_step s ev)"
proof (cases ev)
  case (Submit opts now)
  assume "sched_inv s"
  then show ?thesis using Submit by (simp add: sched_inv_submit)
next
  case (DispatchTick now)
  assume "sched_inv s"
  then show ?thesis using DispatchTick by (simp add: sched_inv_dispatch_tick)
next
  case (Resume rid a now)
  assume "sched_inv s"
  then show ?thesis using Resume by (simp add: sched_inv_resume)
qed (simp_all add: sched_inv_def)

lemma sched_inv_run: "sched_inv s \<Longrightarrow> sched_inv (sched_run s evs)"
  unfolding sched_run_def
  by (induction evs arbitrary: s) (simp_all add: sched_inv_step)

lemma sched_inv_new: "sched_inv (new_PDScheduler cfg now)"
  by (simp add: sched_inv_def new_PDScheduler_def queue_ids_def pipeline_ids_def inflight_ids_def)

text \<open>
  Claim C1, as the code has it. \<open>submit\<close> puts an accepted request in the queue and,
  under the same id, in the in-flight table, so a queued request is in both. In every
  state a scheduler can reach, the ids in the in-flight table are exactly those of the
  queued requests together with those of the requests whose pipeline is running, and
  no id occurs twice among the queued and running requests: a request is in the
  in-flight table from \<open>submit\<close> until it is terminal, and in the queue as well until
  it is dispatched or times out.
\<close>

theorem C1_queue_within_inflight:
  "(fst (submit opts now s) = Inr rid \<longrightarrow>
      rid \<in> set (queue_ids (snd (submit opts now s))) \<and>
      rid \<in> set (inflight_ids (snd (submit opts now s)))) \<and>
   distinct (queue_ids (sched_run (new_PDScheduler cfg t0) evs) @
             pipeline_ids (sched_run (new_PDScheduler cfg t0) evs)) \<and>
   set (inflight_ids (sched_run (new_PDScheduler cfg t0) evs)) =
     set (queue_ids (sched_run (new_PDScheduler cfg t0) evs)) \<union>
     set (pipeline_ids (sched_run (new_PDScheduler cfg t0) evs))"
proof -
  have a: "fst (submit opts now s) = Inr rid \<longrightarrow>
      rid \<in> set (queue_ids (snd (submit opts now s))) \<and>
      rid \<in> set (inflight_ids (snd (submit opts now s)))"
    by (auto simp: submit_def generateRequestId_def Let_def queue_ids_def inflight_ids_def
                   AList.dom_update split: if_splits)
  have "sched_inv (sched_run (new_PDScheduler cfg t0) evs)"
    by (intro sched_inv_run sched_inv_new)
  then show ?thesis using a by (simp add: sched_inv_def)
qed

theorem C1_queue_within_inflight_witness:
  "fst (submit (opts0 None None) 0 (new_PDScheduler (cfg0 10) 0)) = Inr ''req-0-1'' \<and>
   queue_ids (snd (submit (opts0 None None) 0 (new_PDScheduler (cfg0 10) 0))) = [''req-0-1''] \<and>
   inflight_ids (snd (submit (opts0 None None) 0 (new_PDScheduler (cfg0 10) 0))) = [''req-0-1'']"
proof -
  have r: "request_id_string 0 (Suc 0) = ''req-0-1''"
    by (simp add: request_id_string_def show_nat.simps digit_char_def)
  have f: "fst (submit (opts0 None None) 0 (new_PDScheduler (cfg0 10) 0)) = Inr ''req-0-1''"
    by (simp add: submit_def generateRequestId_def Let_def new_PDScheduler_def cfg0_def r)
  have l: "length (queue_ids (snd (submit (opts0 None None) 0 (new_PDScheduler (cfg0 10) 0)))) = 1 \<and>
           length (inflight_ids (snd (submit (opts0 None None) 0 (new_PDScheduler (cfg0 10) 0)))) = 1"
    by (simp add: submit_def generateRequestId_def Let_def new_PDScheduler_def cfg0_def
                  queue_ids_def inflight_ids_def)
  have m: "''req-0-1'' \<in> set (queue_ids (snd (submit (opts0 None None) 0 (new_PDScheduler (cfg0 10) 0)))) \<and>
           ''req-0-1'' \<in> set (inflight_ids (snd (submit (opts0 None None) 0 (new_PDScheduler (cfg0 10) 0))))"
    using C1_queue_within_inflight
            [of "opts0 None None" 0 "new_PDScheduler (cfg0 10) 0" "''req-0-1''"] f
    by blast
  have one: "length xs = 1 \<Longrightarrow> x \<in> set xs \<Longrightarrow> xs = [x]" for x :: string and xs
    by (cases xs) auto
  show ?thesis using f l m one by blast
qed

text \<open>
  Claim C1 as stated fails: after one \<open>submit\<close> on a fresh scheduler the id of the
  request is in the queue and in the in-flight table at once.
\<close>

theorem C1_counterexample:
  "queue_ids (snd (submit (opts0 None None) 0 (new_PDScheduler (cfg0 10) 0))) = [''req-0-1''] \<and>
   inflight_ids (snd (submit (opts0 None None) 0 (new_PDScheduler (cfg0 10) 0))) = [''req-0-1'']"
  by (simp add: submit_def generateRequestId_def Let_def new_PDScheduler_def cfg0_def
                queue_ids_def inflight_ids_def request_id_string_def show_nat.simps
                digit_char_def)

end
